theory Spec2Isabelle
  imports Main "HOL-Library.FSet" "HOL-Library.AList"
begin

section \<open>Data model of the address book\<close>

text \<open>
  The Python objects of \<^verbatim>\<open>ProjectGrupy3AddressBook.py\<close>. A Python object has an
  identity besides its attributes, and the classes of the program define no \<^verbatim>\<open>__eq__\<close>,
  so \<^verbatim>\<open>==\<close> between two of them is identity. A field object (\<^verbatim>\<open>Name\<close>,
  \<^verbatim>\<open>Phone\<close>, \<^verbatim>\<open>Email\<close>, \<^verbatim>\<open>Birthday\<close>) is never mutated after its constructor, so it is
  modelled as its \<^verbatim>\<open>value\<close> together with its identity \<open>ident\<close>. A \<^verbatim>\<open>Record\<close> is mutated
  after it has been stored (\<^verbatim>\<open>add_record\<close> assigns \<^verbatim>\<open>record.id\<close>), so records live in a
  heap and the address book stores their addresses. A \<^verbatim>\<open>Note\<close> and its \<^verbatim>\<open>Tag\<close>s are
  held by value with their identities as well: none of the operations modelled
  here changes a note once a record holds it.

  Python's \<^verbatim>\<open>int\<close> is \<open>int\<close>. The strings that the objects of this theory hold are
  \<open>string\<close>s, that is, sequences of code points below 256; the string that
  \<^verbatim>\<open>validate_birthday\<close> is asked about is any sequence of code points (see the
  section on calendar dates).
\<close>

type_synonym addr = nat

record Field =
  ident :: addr
  val :: string

record Address =
  street :: string
  city :: string
  postal_code :: string
  country :: string
  address_val :: string

record Tag =
  tag_ident :: addr
  tag_name :: string

record Note =
  note_ident :: addr
  title :: string
  content :: string
  tags :: "Tag list"

record Record =
  rec_id :: "int option"
  name :: Field
  phones :: "Field list"
  emails :: "Field list"
  birthday :: "Field option"
  address :: "Address option"
  rec_notes :: "Note list"

type_synonym heap = "addr \<Rightarrow> Record"

text \<open>
  \<^verbatim>\<open>AddressBook(UserDict)\<close>: \<open>data\<close> is the dict of \<^verbatim>\<open>UserDict\<close>, an association
  list in insertion order (a Python dict iterates in insertion order; assigning to a
  key that is present keeps its position, which is what \<open>AList.update\<close> does).
  \<open>current\<close> is the attribute that \<^verbatim>\<open>__iter__\<close> creates; it is absent (\<open>None\<close>)
  until then.
\<close>

record AddressBook =
  data :: "(int \<times> addr) list"
  next_id :: int
  free_ids :: "int fset"
  current :: "nat option"

datatype error = ValueError | AttributeError | StopIteration

definition Record_init :: "Field \<Rightarrow> Field option \<Rightarrow> Record" where
  "Record_init nm bd =
     \<lparr>rec_id = None, name = nm, phones = [], emails = [], birthday = bd,
      address = None, rec_notes = []\<rparr>"

definition AddressBook_init :: AddressBook where
  "AddressBook_init = \<lparr>data = [], next_id = 1, free_ids = {||}, current = None\<rparr>"

definition keys :: "(int \<times> addr) list \<Rightarrow> int set" where
  "keys d = fst ` set d"

definition values_of :: "(int \<times> addr) list \<Rightarrow> addr list" where
  "values_of d = map snd d"

section \<open>Identifier allocation\<close>

text \<open>
  The loop at the head of \<^verbatim>\<open>add_record\<close>:
  \<^verbatim>\<open>while self.next_id in self.data or self.next_id in self.free_ids: self.next_id += 1\<close>.
  It terminates because the dict and the set are finite.
\<close>

function advance :: "(int \<times> addr) list \<Rightarrow> int fset \<Rightarrow> int \<Rightarrow> int" where
  "advance d f n = (if n \<in> keys d \<or> n |\<in>| f then advance d f (n + 1) else n)"
  by pat_completeness auto
termination
proof (relation "measure (\<lambda>(d, f, n). card {k \<in> keys d \<union> fset f. n \<le> k})")
  show "wf (measure (\<lambda>(d, f, n). card {k \<in> keys d \<union> fset f. n \<le> k}))"
    by simp
next
  fix d :: "(int \<times> addr) list" and f :: "int fset" and n :: int
  assume h: "n \<in> keys d \<or> n |\<in>| f"
  have fin: "finite {k \<in> keys d \<union> fset f. n \<le> k}"
    by (simp add: keys_def)
  have mem: "n \<in> {k \<in> keys d \<union> fset f. n \<le> k}"
    using h by auto
  have nmem: "n \<notin> {k \<in> keys d \<union> fset f. n + 1 \<le> k}"
    by simp
  have "{k \<in> keys d \<union> fset f. n + 1 \<le> k} \<subseteq> {k \<in> keys d \<union> fset f. n \<le> k}"
    by auto
  with mem nmem
  have sub: "{k \<in> keys d \<union> fset f. n + 1 \<le> k} \<subset> {k \<in> keys d \<union> fset f. n \<le> k}"
    by blast
  show "((d, f, n + 1), (d, f, n)) \<in> measure (\<lambda>(d, f, n). card {k \<in> keys d \<union> fset f. n \<le> k})"
    using psubset_card_mono [OF fin sub] by simp
qed

declare advance.simps [simp del]

text \<open>
  \<^verbatim>\<open>add_record(self, record)\<close>. The record is given by its address \<open>a\<close>; the
  assignment \<^verbatim>\<open>record.id = ...\<close> updates the heap, \<^verbatim>\<open>self.data[record.id] = record\<close>
  the dict.
\<close>

definition add_record :: "AddressBook \<Rightarrow> addr \<Rightarrow> heap \<Rightarrow> AddressBook \<times> heap" where
  "add_record b a h =
     (let n = advance (data b) (free_ids b) (next_id b) in
      if free_ids b \<noteq> {||} then
        (let i = fMin (free_ids b) in
         (b\<lparr>data := AList.update i a (data b), next_id := n,
            free_ids := free_ids b |-| {|i|}\<rparr>,
          h(a := (h a)\<lparr>rec_id := Some i\<rparr>)))
      else
        (b\<lparr>data := AList.update n a (data b), next_id := n + 1\<rparr>,
         h(a := (h a)\<lparr>rec_id := Some n\<rparr>)))"

text \<open>
  \<^verbatim>\<open>delete_record_by_id(self)\<close>. The argument is the outcome of
  \<^verbatim>\<open>int(record_id_str)\<close> on the line read from the console: \<open>Some k\<close> when it is an
  integer, \<open>None\<close> when \<^verbatim>\<open>int\<close> raises \<^verbatim>\<open>ValueError\<close>, which the method catches.
\<close>

definition delete_record_by_id :: "AddressBook \<Rightarrow> int option \<Rightarrow> AddressBook" where
  "delete_record_by_id b inp =
     (case inp of
        None \<Rightarrow> b
      | Some record_id \<Rightarrow>
          if record_id \<in> keys (data b) then
            b\<lparr>data := AList.delete record_id (data b),
              free_ids := finsert record_id (free_ids b)\<rparr>
          else b)"

text \<open>
  A run of the store: a sequence of calls of \<^verbatim>\<open>add_record\<close> and
  \<^verbatim>\<open>delete_record_by_id\<close>, each applied to the state the previous one left.
\<close>

datatype op = Insert addr | Delete "int option"

fun step :: "op \<Rightarrow> AddressBook \<times> heap \<Rightarrow> AddressBook \<times> heap" where
  "step (Insert a) (b, h) = add_record b a h"
| "step (Delete inp) (b, h) = (delete_record_by_id b inp, h)"

fun run :: "op list \<Rightarrow> AddressBook \<times> heap \<Rightarrow> AddressBook \<times> heap" where
  "run [] s = s"
| "run (x # xs) s = run xs (step x s)"

text \<open>
  \<open>fresh_inserts ops s\<close>: every record handed to \<^verbatim>\<open>add_record\<close> in the run is an
  object that the dict does not hold at that moment (as in \<^verbatim>\<open>main\<close>, where each
  inserted record comes straight from \<^verbatim>\<open>create_record\<close>).
\<close>

fun fresh_inserts :: "op list \<Rightarrow> AddressBook \<times> heap \<Rightarrow> bool" where
  "fresh_inserts [] s = True"
| "fresh_inserts (Insert a # xs) (b, h) =
     (a \<notin> set (values_of (data b)) \<and> fresh_inserts xs (add_record b a h))"
| "fresh_inserts (Delete inp # xs) (b, h) =
     fresh_inserts xs (delete_record_by_id b inp, h)"

section \<open>Persistence\<close>

text \<open>
  \<^verbatim>\<open>pickle.dump(book.data, file)\<close> writes the dict and the state of every object
  that the dict reaches, each object once: the pickler keeps a memo of the objects
  it has written and refers back to it when it meets one again. The file of the
  model is the dict, whose values name the records by their addresses in the
  saving process, and the table of the records written, in the order in which the
  dict first reaches them (\<open>pickle_memo\<close>). Only \<^verbatim>\<open>book.data\<close> is written:
  \<^verbatim>\<open>next_id\<close> and \<^verbatim>\<open>free_ids\<close> are attributes of the \<^verbatim>\<open>AddressBook\<close>, not of the dict.
  \<open>Garbage\<close> is a file on which \<^verbatim>\<open>pickle.load\<close> raises; no file at all is \<open>None\<close>.
\<close>

fun pickle_memo :: "addr list \<Rightarrow> addr list \<Rightarrow> addr list" where
  "pickle_memo memo [] = memo"
| "pickle_memo memo (a # as) = pickle_memo (if a \<in> set memo then memo else memo @ [a]) as"

datatype pickle_file = Pickle "(int \<times> addr) list" "(addr \<times> Record) list" | Garbage

definition pickle_dump :: "(int \<times> addr) list \<Rightarrow> heap \<Rightarrow> pickle_file" where
  "pickle_dump d h = Pickle d (map (\<lambda>a. (a, h a)) (pickle_memo [] (values_of d)))"

text \<open>
  \<^verbatim>\<open>save_address_book\<close> catches every exception and prints it. \<open>old\<close> is the file
  before the call. When \<^verbatim>\<open>open(filename, 'wb')\<close> raises, the file stays as it was;
  once the file is open it is empty, and when \<^verbatim>\<open>pickle.dump\<close> raises it is left
  incomplete, so that loading it raises.
\<close>

datatype write_outcome = Written | OpenFailed | DumpFailed

definition save_address_book ::
  "AddressBook \<Rightarrow> heap \<Rightarrow> pickle_file option \<Rightarrow> write_outcome \<Rightarrow> pickle_file option" where
  "save_address_book book h old outcome =
     (case outcome of
        Written \<Rightarrow> Some (pickle_dump (data book) h)
      | OpenFailed \<Rightarrow> old
      | DumpFailed \<Rightarrow> Some Garbage)"

text \<open>
  \<^verbatim>\<open>pickle.load\<close> builds a new object for every object of the file. \<open>\<rho>\<close> maps the
  identity of a written object to the identity of the object built for it; the
  interpreter never hands out one new object for two, so \<open>\<rho>\<close> is injective.
  \<open>rebuild\<close> is the state of a rebuilt record: the attributes of the written one,
  with the rebuilt field, note and tag objects in place of the written ones.
\<close>

definition rename_field :: "(addr \<Rightarrow> addr) \<Rightarrow> Field \<Rightarrow> Field" where
  "rename_field \<rho> f = f\<lparr>ident := \<rho> (ident f)\<rparr>"

definition rename_tag :: "(addr \<Rightarrow> addr) \<Rightarrow> Tag \<Rightarrow> Tag" where
  "rename_tag \<rho> t = t\<lparr>tag_ident := \<rho> (tag_ident t)\<rparr>"

definition rename_note :: "(addr \<Rightarrow> addr) \<Rightarrow> Note \<Rightarrow> Note" where
  "rename_note \<rho> n = n\<lparr>note_ident := \<rho> (note_ident n), tags := map (rename_tag \<rho>) (tags n)\<rparr>"

definition rebuild :: "(addr \<Rightarrow> addr) \<Rightarrow> Record \<Rightarrow> Record" where
  "rebuild \<rho> r =
     r\<lparr>name := rename_field \<rho> (name r),
       phones := map (rename_field \<rho>) (phones r),
       emails := map (rename_field \<rho>) (emails r),
       birthday := map_option (rename_field \<rho>) (birthday r),
       rec_notes := map (rename_note \<rho>) (rec_notes r)\<rparr>"

definition pickle_load ::
  "(int \<times> addr) list \<Rightarrow> (addr \<times> Record) list \<Rightarrow> (addr \<Rightarrow> addr) \<Rightarrow> heap
     \<Rightarrow> (int \<times> addr) list \<times> heap" where
  "pickle_load d objs \<rho> h =
     (map (\<lambda>(k, a). (k, \<rho> a)) d, fold (\<lambda>(a, r) hh. hh(\<rho> a := rebuild \<rho> r)) objs h)"

text \<open>
  \<^verbatim>\<open>load_address_book\<close>: \<open>h\<close> is the heap of the loading process. A missing file and a
  file that does not load both give a new, empty \<^verbatim>\<open>AddressBook()\<close>; a loaded dict is
  put into a new \<^verbatim>\<open>AddressBook()\<close>, whose \<^verbatim>\<open>next_id\<close> is 1 and whose \<^verbatim>\<open>free_ids\<close> is empty.
\<close>

definition load_address_book ::
  "pickle_file option \<Rightarrow> heap \<Rightarrow> (addr \<Rightarrow> addr) \<Rightarrow> AddressBook \<times> heap" where
  "load_address_book f h \<rho> =
     (case f of
        Some (Pickle d objs) \<Rightarrow>
          (AddressBook_init\<lparr>data := fst (pickle_load d objs \<rho> h)\<rparr>,
           snd (pickle_load d objs \<rho> h))
      | Some Garbage \<Rightarrow> (AddressBook_init, h)
      | None \<Rightarrow> (AddressBook_init, h))"

text \<open>
  Saving without an I/O error, then loading; and the values of the fields of a
  record, without the identities of the objects that carry them.
\<close>

definition save_then_load ::
  "AddressBook \<Rightarrow> heap \<Rightarrow> pickle_file option \<Rightarrow> heap \<Rightarrow> (addr \<Rightarrow> addr) \<Rightarrow> AddressBook \<times> heap" where
  "save_then_load book h old h' \<rho> = load_address_book (save_address_book book h old Written) h' \<rho>"

definition note_values :: "Note \<Rightarrow> string \<times> string \<times> string list" where
  "note_values n = (title n, content n, map tag_name (tags n))"

definition field_values ::
  "Record \<Rightarrow> int option \<times> string \<times> string list \<times> string list \<times> string option
     \<times> Address option \<times> (string \<times> string \<times> string list) list" where
  "field_values r =
     (rec_id r, val (name r), map val (phones r), map val (emails r),
      map_option val (birthday r), address r, map note_values (rec_notes r))"

section \<open>Example states\<close>

text \<open>A heap of records that \<^verbatim>\<open>Record(Name("Ann"))\<close> has just built.\<close>

definition heap0 :: heap where
  "heap0 = (\<lambda>a. Record_init \<lparr>ident = 100 + a, val = ''Ann''\<rparr> None)"

text \<open>
  The book that \<^verbatim>\<open>load_address_book\<close> returns for a file saved with the records
  of ids 1 and 3 (at addresses 0 and 2), and a heap that holds these records; the
  record at address 1 is the one that had id 2 before it was deleted.
\<close>

definition loaded_13 :: AddressBook where
  "loaded_13 = \<lparr>data = [(1, 0), (3, 2)], next_id = 1, free_ids = {||}, current = None\<rparr>"

definition heap_13 :: heap where
  "heap_13 = heap0(0 := (heap0 0)\<lparr>rec_id := Some 1\<rparr>, 1 := (heap0 1)\<lparr>rec_id := Some 2\<rparr>,
                   2 := (heap0 2)\<lparr>rec_id := Some 3\<rparr>)"

text \<open>
  The book after three insertions (addresses 0, 1, 2) and the deletion of id 2.
\<close>

definition book_13 :: AddressBook where
  "book_13 = \<lparr>data = [(1, 0), (3, 2)], next_id = 4, free_ids = {|2|}, current = None\<rparr>"

text \<open>
  The invariants of a run from the fresh book: \<open>alloc_inv\<close> for the allocator (the
  keys and the free ids split the ids handed out so far, \<open>1 .. next_id - 1\<close>),
  \<open>ids_inv\<close> for the records (each is stored under its own \<^verbatim>\<open>id\<close>).
\<close>

definition alloc_inv :: "AddressBook \<Rightarrow> bool" where
  "alloc_inv b \<longleftrightarrow>
     1 \<le> next_id b \<and> keys (data b) \<inter> fset (free_ids b) = {} \<and>
     keys (data b) \<union> fset (free_ids b) = {1..<next_id b}"

definition ids_inv :: "AddressBook \<Rightarrow> heap \<Rightarrow> bool" where
  "ids_inv b h \<longleftrightarrow> (\<forall>(k, a) \<in> set (data b). rec_id (h a) = Some k)"

section \<open>Batched iteration\<close>

text \<open>
  \<^verbatim>\<open>__iter__\<close> and \<^verbatim>\<open>__next__\<close> of \<^verbatim>\<open>AddressBook\<close>. The cursor \<^verbatim>\<open>self.current\<close> starts at 0
  and only grows by 5, so it is a \<open>nat\<close>; the slice
  \<^verbatim>\<open>list(self.data.values())[self.current:self.current+5]\<close> is \<open>take 5 (drop c ...)\<close>.
  \<open>for_batches\<close> is the loop \<^verbatim>\<open>for records in book\<close> after \<^verbatim>\<open>iter(book)\<close>: it calls
  \<^verbatim>\<open>__next__\<close> until \<^verbatim>\<open>StopIteration\<close> and collects the batches; any other exception
  leaves the loop.
\<close>

definition AddressBook_iter :: "AddressBook \<Rightarrow> AddressBook" where
  "AddressBook_iter b = b\<lparr>current := Some 0\<rparr>"

definition AddressBook_next :: "AddressBook \<Rightarrow> error + (addr list \<times> AddressBook)" where
  "AddressBook_next b =
     (case current b of
        None \<Rightarrow> Inl AttributeError
      | Some c \<Rightarrow>
          if c < length (data b) then
            Inr (take 5 (drop c (values_of (data b))), b\<lparr>current := Some (c + 5)\<rparr>)
          else Inl StopIteration)"

function for_batches :: "AddressBook \<Rightarrow> error + addr list list" where
  "for_batches b =
     (case AddressBook_next b of
        Inl e \<Rightarrow> if e = StopIteration then Inr [] else Inl e
      | Inr (records, b') \<Rightarrow>
          (case for_batches b' of
             Inl e \<Rightarrow> Inl e
           | Inr rest \<Rightarrow> Inr (records # rest)))"
  by pat_completeness auto
termination
proof (relation "measure (\<lambda>b. case current b of None \<Rightarrow> 0 | Some c \<Rightarrow> length (data b) - c)")
  show "wf (measure (\<lambda>b. case current b of None \<Rightarrow> 0 | Some c \<Rightarrow> length (data b) - c))"
    by simp
next
  fix b :: AddressBook and x2 :: "addr list \<times> AddressBook" and records b'
  assume "AddressBook_next b = Inr x2" and "(records, b') = x2"
  then show "(b', b) \<in> measure (\<lambda>b. case current b of None \<Rightarrow> 0 | Some c \<Rightarrow> length (data b) - c)"
    by (auto simp: AddressBook_next_def split: option.splits if_splits)
qed

declare for_batches.simps [simp del]

text \<open>A book holding twelve records.\<close>

definition book_12 :: AddressBook where
  "book_12 = \<lparr>data = [(1, 0), (2, 1), (3, 2), (4, 3), (5, 4), (6, 5), (7, 6), (8, 7),
                      (9, 8), (10, 9), (11, 10), (12, 11)],
              next_id = 13, free_ids = {||}, current = None\<rparr>"

section \<open>Operations on a record's phones\<close>

text \<open>
  \<^verbatim>\<open>list.remove(x)\<close> deletes the first item that is \<^verbatim>\<open>x\<close> or equal to \<^verbatim>\<open>x\<close> and raises
  \<^verbatim>\<open>ValueError\<close> when there is none. \<^verbatim>\<open>Phone\<close> inherits \<^verbatim>\<open>__eq__\<close> from \<^verbatim>\<open>object\<close>, so
  two phones are equal exactly when they are the same object: the test compares
  identities, not \<open>val\<close>.
\<close>

fun list_remove :: "Field \<Rightarrow> Field list \<Rightarrow> error + Field list" where
  "list_remove x [] = Inl ValueError"
| "list_remove x (y # ys) =
     (if ident y = ident x then Inr ys
      else (case list_remove x ys of Inl e \<Rightarrow> Inl e | Inr r \<Rightarrow> Inr (y # r)))"

text \<open>
  \<^verbatim>\<open>Record.add_phone\<close>, \<^verbatim>\<open>remove_phone\<close> and \<^verbatim>\<open>edit_phone\<close> mutate the record. The model
  returns the exception raised, if any, together with the record as the call
  leaves it.
\<close>

definition add_phone :: "Record \<Rightarrow> Field \<Rightarrow> Record" where
  "add_phone r phone = r\<lparr>phones := phones r @ [phone]\<rparr>"

definition remove_phone :: "Record \<Rightarrow> Field \<Rightarrow> error option \<times> Record" where
  "remove_phone r phone =
     (case list_remove phone (phones r) of
        Inl e \<Rightarrow> (Some e, r)
      | Inr ps \<Rightarrow> (None, r\<lparr>phones := ps\<rparr>))"

definition edit_phone :: "Record \<Rightarrow> Field \<Rightarrow> Field \<Rightarrow> error option \<times> Record" where
  "edit_phone r old_phone new_phone =
     (case remove_phone r old_phone of
        (Some e, r') \<Rightarrow> (Some e, r')
      | (None, r') \<Rightarrow> (None, add_phone r' new_phone))"

section \<open>Search\<close>

text \<open>
  \<^verbatim>\<open>str.lower\<close> on code points below 256: the letters A to Z and the capital letters
  of Latin-1 (192 to 222 without the multiplication sign 215) move up by 32.
  \<open>str_in t s\<close> is Python's \<^verbatim>\<open>t in s\<close> on strings.
\<close>

definition lower_char :: "char \<Rightarrow> char" where
  "lower_char c =
     (let n = (of_char c :: nat) in
      if (65 \<le> n \<and> n \<le> 90) \<or> (192 \<le> n \<and> n \<le> 222 \<and> n \<noteq> 215)
      then char_of (n + 32) else c)"

definition lower :: "string \<Rightarrow> string" where
  "lower s = map lower_char s"

fun startswith :: "string \<Rightarrow> string \<Rightarrow> bool" where
  "startswith s [] = True"
| "startswith [] (p # ps) = False"
| "startswith (c # cs) (p # ps) = (c = p \<and> startswith cs ps)"

fun str_in :: "string \<Rightarrow> string \<Rightarrow> bool" where
  "str_in t [] = (t = [])"
| "str_in t (c # cs) = (startswith (c # cs) t \<or> str_in t cs)"

text \<open>
  \<^verbatim>\<open>AddressBook.find_record\<close>. \<open>for_fields\<close> is one inner loop
  (\<^verbatim>\<open>for phone in record.phones\<close>, \<^verbatim>\<open>for email in record.emails\<close>): it appends the record
  at the first match and breaks. \<open>for_records\<close> is the outer loop: a name match
  appends and continues with the next record; otherwise the phone loop runs and,
  after it, the email loop.
\<close>

fun for_fields :: "string \<Rightarrow> Field list \<Rightarrow> addr \<Rightarrow> addr list \<Rightarrow> addr list" where
  "for_fields t [] a found_records = found_records"
| "for_fields t (f # fs) a found_records =
     (if str_in t (val f) then found_records @ [a]
      else for_fields t fs a found_records)"

fun for_records :: "string \<Rightarrow> heap \<Rightarrow> addr list \<Rightarrow> addr list \<Rightarrow> addr list" where
  "for_records t h [] found_records = found_records"
| "for_records t h (a # as) found_records =
     (if str_in (lower t) (lower (val (name (h a))))
      then for_records t h as (found_records @ [a])
      else for_records t h as
             (for_fields t (emails (h a)) a (for_fields t (phones (h a)) a found_records)))"

definition find_record :: "AddressBook \<Rightarrow> heap \<Rightarrow> string \<Rightarrow> addr list" where
  "find_record b h search_term = for_records search_term h (values_of (data b)) []"

text \<open>
  A contact named Bob whose phone and email both contain \<open>123\<close>, the book that holds
  it, and a record with one phone.
\<close>

definition bob :: Record where
  "bob = \<lparr>rec_id = Some 1, name = \<lparr>ident = 10, val = ''Bob''\<rparr>,
          phones = [\<lparr>ident = 11, val = ''123456789''\<rparr>],
          emails = [\<lparr>ident = 12, val = ''a123@x.com''\<rparr>],
          birthday = None, address = None, rec_notes = []\<rparr>"

definition bob_book :: AddressBook where
  "bob_book = \<lparr>data = [(1, 0)], next_id = 2, free_ids = {||}, current = None\<rparr>"

definition bob_heap :: heap where
  "bob_heap = (\<lambda>a. bob)"

definition rec_1 :: Record where
  "rec_1 = (Record_init \<lparr>ident = 10, val = ''Bob''\<rparr> None)
             \<lparr>phones := [\<lparr>ident = 11, val = ''123456789''\<rparr>]\<rparr>"

section \<open>Calendar dates\<close>

text \<open>
  The part of the standard library's \<^verbatim>\<open>datetime\<close> that the program uses, after CPython's
  \<^verbatim>\<open>Lib/_pydatetime.py\<close>: the proleptic Gregorian calendar with years 1 to 9999.
  The constructor checks its fields and raises \<^verbatim>\<open>ValueError\<close>; \<^verbatim>\<open>replace(year=y)\<close>
  builds a new \<^verbatim>\<open>datetime\<close> through the same checks. \<open>to_microseconds\<close> places a
  \<^verbatim>\<open>datetime\<close> on the time line: \<^verbatim>\<open>a > b\<close> compares these positions, and
  \<^verbatim>\<open>(a - b).days\<close> is their difference divided by the microseconds of a day,
  rounded down.
\<close>

record datetime =
  year :: int
  month :: int
  day :: int
  hour :: int
  minute :: int
  second :: int
  microsecond :: int

definition is_leap :: "int \<Rightarrow> bool" where
  "is_leap y \<longleftrightarrow> y mod 4 = 0 \<and> (y mod 100 \<noteq> 0 \<or> y mod 400 = 0)"

definition days_in_month :: "int \<Rightarrow> int \<Rightarrow> int" where
  "days_in_month y m =
     (if m = 2 \<and> is_leap y then 29
      else [31, 28, 31, 30, 31, 30, 31, 31, 30, 31, 30, 31] ! nat (m - 1))"

definition days_before_year :: "int \<Rightarrow> int" where
  "days_before_year y = (y - 1) * 365 + (y - 1) div 4 - (y - 1) div 100 + (y - 1) div 400"

definition days_before_month :: "int \<Rightarrow> int \<Rightarrow> int" where
  "days_before_month y m =
     [0, 31, 59, 90, 120, 151, 181, 212, 243, 273, 304, 334] ! nat (m - 1)
       + (if 2 < m \<and> is_leap y then 1 else 0)"

definition ymd2ord :: "int \<Rightarrow> int \<Rightarrow> int \<Rightarrow> int" where
  "ymd2ord y m d = days_before_year y + days_before_month y m + d"

definition datetime_new ::
  "int \<Rightarrow> int \<Rightarrow> int \<Rightarrow> int \<Rightarrow> int \<Rightarrow> int \<Rightarrow> int \<Rightarrow> error + datetime" where
  "datetime_new y m d hh mm ss us =
     (if \<not> (1 \<le> y \<and> y \<le> 9999) then Inl ValueError
      else if \<not> (1 \<le> m \<and> m \<le> 12) then Inl ValueError
      else if \<not> (1 \<le> d \<and> d \<le> days_in_month y m) then Inl ValueError
      else if \<not> (0 \<le> hh \<and> hh \<le> 23) then Inl ValueError
      else if \<not> (0 \<le> mm \<and> mm \<le> 59) then Inl ValueError
      else if \<not> (0 \<le> ss \<and> ss \<le> 59) then Inl ValueError
      else if \<not> (0 \<le> us \<and> us \<le> 999999) then Inl ValueError
      else Inr \<lparr>year = y, month = m, day = d, hour = hh, minute = mm, second = ss,
                microsecond = us\<rparr>)"

definition replace_year :: "datetime \<Rightarrow> int \<Rightarrow> error + datetime" where
  "replace_year dt y =
     datetime_new y (month dt) (day dt) (hour dt) (minute dt) (second dt) (microsecond dt)"

definition to_microseconds :: "datetime \<Rightarrow> int" where
  "to_microseconds dt =
     (((ymd2ord (year dt) (month dt) (day dt) * 24 + hour dt) * 60 + minute dt) * 60
        + second dt) * 1000000 + microsecond dt"

definition timedelta_days :: "datetime \<Rightarrow> datetime \<Rightarrow> int" where
  "timedelta_days a b = (to_microseconds a - to_microseconds b) div 86400000000"

text \<open>
  A Python \<^verbatim>\<open>str\<close> that goes into \<^verbatim>\<open>strptime\<close> is a sequence of Unicode code points, a
  \<open>nat list\<close>; \<open>codepoints\<close> gives the code points of a string of this theory. The
  class \<^verbatim>\<open>\d\<close> of a regular expression on \<^verbatim>\<open>str\<close> holds every character that the
  Unicode database of the interpreter lists as a decimal digit, and \<^verbatim>\<open>int\<close> reads
  such a character by its decimal value. Below 128 these are the digits 0 to 9 in
  every version of the database; \<open>udb\<close> stands for the rest of the database: the
  decimal value of a code point from 128 on, if it has one.
\<close>

type_synonym unicode_db = "nat \<Rightarrow> nat option"

definition codepoints :: "string \<Rightarrow> nat list" where
  "codepoints s = map of_char s"

definition to_decimal :: "unicode_db \<Rightarrow> nat \<Rightarrow> nat option" where
  "to_decimal udb c =
     (if c < 128 then (if 48 \<le> c \<and> c \<le> 57 then Some (c - 48) else None) else udb c)"

definition isdecimal :: "unicode_db \<Rightarrow> nat \<Rightarrow> bool" where
  "isdecimal udb c \<longleftrightarrow> to_decimal udb c \<noteq> None"

text \<open>
  \<^verbatim>\<open>int(s)\<close> on the text of a group: blanks around the digits are dropped, and what
  remains must be decimal digits. (A group holds digits and at most one blank in
  front, so the signs and underscores that \<^verbatim>\<open>int\<close> also reads cannot occur.)
\<close>

fun digits_value :: "unicode_db \<Rightarrow> int \<Rightarrow> nat list \<Rightarrow> int option" where
  "digits_value udb n [] = Some n"
| "digits_value udb n (c # cs) =
     (case to_decimal udb c of
        None \<Rightarrow> None
      | Some v \<Rightarrow> digits_value udb (10 * n + int v) cs)"

definition strip :: "nat list \<Rightarrow> nat list" where
  "strip s = rev (dropWhile (\<lambda>c. c = 32) (rev (dropWhile (\<lambda>c. c = 32) s)))"

definition int_of_str :: "unicode_db \<Rightarrow> nat list \<Rightarrow> int option" where
  "int_of_str udb s = (if strip s = [] then None else digits_value udb 0 (strip s))"

text \<open>
  \<^verbatim>\<open>datetime.strptime(value, "%Y-%m-%d")\<close>, after CPython's \<^verbatim>\<open>Lib/_strptime.py\<close>. The format
  is compiled into the regular expression
  \<^verbatim>\<open>(?P<Y>\d\d\d\d)-(?P<m>1[0-2]|0[1-9]|[1-9])-(?P<d>3[0-1]|[1-2]\d|0[1-9]|[1-9]| [1-9])\<close>,
  which is matched at the start of the string; input left over after the match is
  an error (\<^verbatim>\<open>unconverted data remains\<close>), and the three groups go through \<^verbatim>\<open>int\<close> into
  the date constructor. Each \<open>re_\<close> function returns the ways its piece of the
  expression matches a prefix, as pairs of the matched text and the rest, in the
  order in which the backtracking matcher tries them; the first element of
  \<open>format_regex_match\<close> is the match that \<^verbatim>\<open>re.match\<close> returns. A bracketed class such
  as \<^verbatim>\<open>[0-2]\<close> holds the listed characters only (\<open>in_class\<close>); the hyphen is code
  point 45.
\<close>

definition in_class :: "string \<Rightarrow> nat \<Rightarrow> bool" where
  "in_class cls c \<longleftrightarrow> c \<in> set (codepoints cls)"

fun re_Y :: "unicode_db \<Rightarrow> nat list \<Rightarrow> (nat list \<times> nat list) list" where
  "re_Y udb (a # b # c # d # r) =
     (if isdecimal udb a \<and> isdecimal udb b \<and> isdecimal udb c \<and> isdecimal udb d
      then [([a, b, c, d], r)] else [])"
| "re_Y udb s = []"

fun re_pair :: "(nat \<Rightarrow> bool) \<Rightarrow> (nat \<Rightarrow> bool) \<Rightarrow> nat list \<Rightarrow> (nat list \<times> nat list) list" where
  "re_pair cls1 cls2 (a # b # r) = (if cls1 a \<and> cls2 b then [([a, b], r)] else [])"
| "re_pair cls1 cls2 s = []"

fun re_one :: "(nat \<Rightarrow> bool) \<Rightarrow> nat list \<Rightarrow> (nat list \<times> nat list) list" where
  "re_one cls (a # r) = (if cls a then [([a], r)] else [])"
| "re_one cls s = []"

definition re_m :: "nat list \<Rightarrow> (nat list \<times> nat list) list" where
  "re_m s = re_pair (in_class ''1'') (in_class ''012'') s
            @ re_pair (in_class ''0'') (in_class ''123456789'') s
            @ re_one (in_class ''123456789'') s"

definition re_d :: "unicode_db \<Rightarrow> nat list \<Rightarrow> (nat list \<times> nat list) list" where
  "re_d udb s = re_pair (in_class ''3'') (in_class ''01'') s
            @ re_pair (in_class ''12'') (isdecimal udb) s
            @ re_pair (in_class ''0'') (in_class ''123456789'') s
            @ re_one (in_class ''123456789'') s
            @ re_pair (in_class '' '') (in_class ''123456789'') s"

fun re_lit :: "nat \<Rightarrow> nat list \<Rightarrow> nat list list" where
  "re_lit c (a # r) = (if a = c then [r] else [])"
| "re_lit c [] = []"

definition format_regex_match ::
  "unicode_db \<Rightarrow> nat list \<Rightarrow> (nat list \<times> nat list \<times> nat list \<times> nat list) list" where
  "format_regex_match udb s =
     concat (map (\<lambda>(Y, r1). concat (map (\<lambda>r2. concat (map (\<lambda>(m, r3).
       concat (map (\<lambda>r4. map (\<lambda>(d, r5). (Y, m, d, r5)) (re_d udb r4)) (re_lit 45 r3)))
         (re_m r2))) (re_lit 45 r1))) (re_Y udb s))"

definition strptime :: "unicode_db \<Rightarrow> nat list \<Rightarrow> error + datetime" where
  "strptime udb data_string =
     (case format_regex_match udb data_string of
        [] \<Rightarrow> Inl ValueError
      | (Y, m, d, rest) # _ \<Rightarrow>
          if rest \<noteq> [] then Inl ValueError
          else
            (case (int_of_str udb Y, int_of_str udb m, int_of_str udb d) of
               (Some y, Some mo, Some dd) \<Rightarrow> datetime_new y mo dd 0 0 0 0
             | _ \<Rightarrow> Inl ValueError))"

text \<open>
  \<^verbatim>\<open>Birthday.validate_birthday\<close>, on every \<^verbatim>\<open>str\<close>, and \<^verbatim>\<open>Birthday.__init__\<close> (the object
  gets identity \<open>i\<close>). The field objects of this theory hold strings of code points
  below 256, so \<open>Birthday_init\<close> is given such a string.
\<close>

definition validate_birthday :: "unicode_db \<Rightarrow> nat list \<Rightarrow> bool" where
  "validate_birthday udb v = (case strptime udb v of Inr _ \<Rightarrow> True | Inl _ \<Rightarrow> False)"

definition Birthday_init :: "unicode_db \<Rightarrow> addr \<Rightarrow> string \<Rightarrow> error + Field" where
  "Birthday_init udb i v =
     (if \<not> validate_birthday udb (codepoints v) then Inl ValueError
      else Inr \<lparr>ident = i, val = v\<rparr>)"

text \<open>
  \<^verbatim>\<open>Record.days_to_birthday\<close>. The clock reading \<^verbatim>\<open>datetime.now()\<close> is the argument
  \<open>today\<close>; the string \<^verbatim>\<open>"No birthday set"\<close> is \<open>NoBirthdaySet\<close>.
\<close>

datatype days_result = NoBirthdaySet | Days int

definition days_to_birthday :: "unicode_db \<Rightarrow> Record \<Rightarrow> datetime \<Rightarrow> error + days_result" where
  "days_to_birthday udb r today =
     (case birthday r of
        None \<Rightarrow> Inr NoBirthdaySet
      | Some b \<Rightarrow>
          if val b = [] then Inr NoBirthdaySet
          else
            (case strptime udb (codepoints (val b)) of
               Inl e \<Rightarrow> Inl e
             | Inr bday \<Rightarrow>
                 (case replace_year bday (year today) of
                    Inl e \<Rightarrow> Inl e
                  | Inr next_birthday \<Rightarrow>
                      if to_microseconds today > to_microseconds next_birthday then
                        (case replace_year next_birthday (year today + 1) of
                           Inl e \<Rightarrow> Inl e
                         | Inr next_birthday' \<Rightarrow>
                             Inr (Days (timedelta_days next_birthday' today)))
                      else Inr (Days (timedelta_days next_birthday today)))))"

text \<open>
  The decimal digits from code point 128 on in Unicode 14.0, the database of
  CPython 3.11: each number of \<open>decimal_blocks\<close> is the code point of a digit zero,
  and the nine code points after it are the digits one to nine of the same script.
\<close>

definition decimal_blocks :: "nat list" where
  "decimal_blocks =
    [1632, 1776, 1984, 2406, 2534, 2662, 2790, 2918, 3046, 3174, 3302, 3430, 3558, 3664,
     3792, 3872, 4160, 4240, 6112, 6160, 6470, 6608, 6784, 6800, 6992, 7088, 7232, 7248,
     42528, 43216, 43264, 43472, 43504, 43600, 44016, 65296, 66720, 68912, 69734, 69872,
     69942, 70096, 70384, 70736, 70864, 71248, 71360, 71472, 71904, 72016, 72784, 73040,
     73120, 92768, 92864, 93008, 120782, 120792, 120802, 120812, 120822, 123200, 123632,
     125264, 130032]"

definition unicode_14 :: unicode_db where
  "unicode_14 c =
     (case filter (\<lambda>b. b \<le> c \<and> c < b + 10) decimal_blocks of
        [] \<Rightarrow> None
      | b # _ \<Rightarrow> Some (c - b))"

text \<open>
  The texts that the regular expression admits for a year (four decimal digits),
  for a month and for a day; a day is one of the listed texts or a 1 or a 2 and
  any decimal digit.
\<close>

definition month_strs :: "string list" where
  "month_strs =
    [''1'', ''01'', ''2'', ''02'', ''3'', ''03'', ''4'', ''04'', ''5'', ''05'', ''6'',
     ''06'', ''7'', ''07'', ''8'', ''08'', ''9'', ''09'', ''10'', ''11'', ''12'']"

definition day_strs :: "string list" where
  "day_strs =
    [''1'', ''01'', '' 1'', ''2'', ''02'', '' 2'', ''3'', ''03'', '' 3'', ''4'', ''04'',
     '' 4'', ''5'', ''05'', '' 5'', ''6'', ''06'', '' 6'', ''7'', ''07'', '' 7'', ''8'',
     ''08'', '' 8'', ''9'', ''09'', '' 9'', ''30'', ''31'']"

definition year_form :: "unicode_db \<Rightarrow> nat list \<Rightarrow> bool" where
  "year_form udb Y \<longleftrightarrow> length Y = 4 \<and> (\<forall>c \<in> set Y. isdecimal udb c)"

definition month_form :: "nat list \<Rightarrow> bool" where
  "month_form m \<longleftrightarrow> m \<in> codepoints ` set month_strs"

definition day_form :: "unicode_db \<Rightarrow> nat list \<Rightarrow> bool" where
  "day_form udb d \<longleftrightarrow>
     d \<in> codepoints ` set day_strs
     \<or> (\<exists>a b. d = [a, b] \<and> in_class ''12'' a \<and> isdecimal udb b)"

text \<open>Example records and clock readings.\<close>

definition rec_june_15 :: Record where
  "rec_june_15 = Record_init \<lparr>ident = 20, val = ''Ann''\<rparr> (Some \<lparr>ident = 21, val = ''1990-06-15''\<rparr>)"

definition rec_feb_29 :: Record where
  "rec_feb_29 = Record_init \<lparr>ident = 22, val = ''Leo''\<rparr> (Some \<lparr>ident = 23, val = ''2020-02-29''\<rparr>)"

definition at_time :: "int \<Rightarrow> int \<Rightarrow> int \<Rightarrow> int \<Rightarrow> datetime" where
  "at_time y m d hh =
     \<lparr>year = y, month = m, day = d, hour = hh, minute = 0, second = 0, microsecond = 0\<rparr>"

section \<open>Facts about the allocation loop\<close>

lemma advance_ge: "n \<le> advance d f n"
proof (induction d f n rule: advance.induct)
  case (1 d f n)
  then show ?case by (subst advance.simps) (auto split: if_splits)
qed

lemma advance_unused: "advance d f n \<notin> keys d \<and> advance d f n |\<notin>| f"
proof (induction d f n rule: advance.induct)
  case (1 d f n)
  then show ?case by (subst (1 2) advance.simps) (auto split: if_splits)
qed

lemma advance_least: "n \<le> k \<Longrightarrow> k < advance d f n \<Longrightarrow> k \<in> keys d \<or> k |\<in>| f"
proof (induction d f n rule: advance.induct)
  case (1 d f n)
  show ?case
  proof (cases "n \<in> keys d \<or> n |\<in>| f")
    case True
    then have adv: "advance d f n = advance d f (n + 1)"
      by (subst advance.simps) simp
    show ?thesis
    proof (cases "k = n")
      case True
      with \<open>n \<in> keys d \<or> n |\<in>| f\<close> show ?thesis by simp
    next
      case False
      with "1.prems" have "n + 1 \<le> k" by simp
      with "1.IH" [OF True] "1.prems" adv show ?thesis by simp
    qed
  next
    case False
    then have "advance d f n = n" by (subst advance.simps) simp
    with "1.prems" show ?thesis by simp
  qed
qed

lemma advance_eqI:
  assumes "n \<le> m" and "m \<notin> keys d" and "m |\<notin>| f"
    and below: "\<And>k. n \<le> k \<Longrightarrow> k < m \<Longrightarrow> k \<in> keys d \<or> k |\<in>| f"
  shows "advance d f n = m"
proof (rule ccontr)
  assume ne: "advance d f n \<noteq> m"
  show False
  proof (cases "advance d f n < m")
    case True
    from below [OF advance_ge True] advance_unused [of d f n] show False by simp
  next
    case False
    with ne have "m < advance d f n" by simp
    from advance_least [OF assms(1) this] assms(2,3) show False by simp
  qed
qed

lemma keys_update: "keys (AList.update k v d) = insert k (keys d)"
  by (induction d) (auto simp: keys_def)

lemma keys_delete: "keys (AList.delete k d) = keys d - {k}"
  by (induction d) (auto simp: keys_def)

lemma update_new_key: "k \<notin> keys d \<Longrightarrow> AList.update k v d = d @ [(k, v)]"
  by (induction d) (auto simp: keys_def)

lemma pickle_memo_set: "set (pickle_memo memo as) = set memo \<union> set as"
  by (induction memo as rule: pickle_memo.induct) auto

lemma keys_renamed: "keys (map (\<lambda>(k, a). (k, \<rho> a)) d) = keys d"
  by (induction d) (auto simp: keys_def)

lemma loaded_13_is_loaded:
  "fst (load_address_book
     (save_address_book (fst (run [Insert 0, Insert 1, Insert 2, Delete (Some 2)]
                               (AddressBook_init, heap0)))
        (snd (run [Insert 0, Insert 1, Insert 2, Delete (Some 2)] (AddressBook_init, heap0)))
        None Written)
     heap0 id) = loaded_13
   \<and> rec_id (snd (load_address_book
     (save_address_book (fst (run [Insert 0, Insert 1, Insert 2, Delete (Some 2)]
                               (AddressBook_init, heap0)))
        (snd (run [Insert 0, Insert 1, Insert 2, Delete (Some 2)] (AddressBook_init, heap0)))
        None Written)
     heap0 id) 0) = Some 1
   \<and> rec_id (snd (load_address_book
     (save_address_book (fst (run [Insert 0, Insert 1, Insert 2, Delete (Some 2)]
                               (AddressBook_init, heap0)))
        (snd (run [Insert 0, Insert 1, Insert 2, Delete (Some 2)] (AddressBook_init, heap0)))
        None Written)
     heap0 id) 2) = Some 3"
  by (simp add: load_address_book_def save_address_book_def pickle_dump_def pickle_load_def
      values_of_def rebuild_def loaded_13_def
      add_record_def delete_record_by_id_def AddressBook_init_def advance.simps keys_def)

lemma book_13_is_reached:
  "run [Insert 0, Insert 1, Insert 2, Delete (Some 2)] (AddressBook_init, heap0)
     = (book_13, heap_13)"
  by (simp add: book_13_def heap_13_def
      add_record_def delete_record_by_id_def AddressBook_init_def advance.simps keys_def
      fun_upd_twist)

section \<open>C1: the identifier that \<^verbatim>\<open>add_record\<close> assigns\<close>

text \<open>
  C1, as the spec states it: when \<open>free_ids\<close> is empty the record receives \<open>next_id\<close>,
  and \<open>next_id\<close> is then advanced so that it always rests on a value that is neither
  a key nor a free id. The code runs the advancing loop first, and after the
  assignment it only adds one. On \<open>loaded_13\<close> (keys 1 and 3, \<open>next_id = 1\<close>, no
  free id: what \<^verbatim>\<open>load_address_book\<close> returns) the record does not receive
  \<open>next_id = 1\<close> but 2, and \<open>next_id\<close> is left at 3, which is a key.
\<close>

theorem add_record_next_id_counterexample:
  "rec_id (snd (add_record loaded_13 1 heap_13) 1) = Some 2
   \<and> next_id loaded_13 = 1
   \<and> next_id (fst (add_record loaded_13 1 heap_13)) = 3
   \<and> 3 \<in> keys (data (fst (add_record loaded_13 1 heap_13)))"
  by (simp add: add_record_def loaded_13_def advance.simps keys_def)

text \<open>
  C1, amended: for every book \<open>b\<close>, record address \<open>a\<close> and heap \<open>h\<close>,
  \<^verbatim>\<open>add_record\<close> assigns the id as follows. If \<open>free_ids\<close> is not empty, the id is its
  minimum, which is removed from \<open>free_ids\<close>. Otherwise the id is the least
  \<open>n \<ge> next_id\<close> that is not a key (\<open>next_id\<close> is advanced before it is used), the
  entry is appended to the dict, and \<open>next_id\<close> is left at \<open>n + 1\<close>. Three insertions
  into a fresh book assign 1, 2, 3, and after the deletion of id 2 the next
  insertion assigns 2.
\<close>

theorem add_record_allocation:
  "(if free_ids b \<noteq> {||} then
      rec_id (snd (add_record b a h) a) = Some (fMin (free_ids b)) \<and>
      free_ids (fst (add_record b a h)) = free_ids b |-| {|fMin (free_ids b)|} \<and>
      data (fst (add_record b a h)) = AList.update (fMin (free_ids b)) a (data b)
    else
      (\<exists>n. rec_id (snd (add_record b a h) a) = Some n \<and>
           next_id b \<le> n \<and> n \<notin> keys (data b) \<and>
           (\<forall>k. next_id b \<le> k \<and> k < n \<longrightarrow> k \<in> keys (data b)) \<and>
           next_id (fst (add_record b a h)) = n + 1 \<and>
           free_ids (fst (add_record b a h)) = {||} \<and>
           data (fst (add_record b a h)) = data b @ [(n, a)]))
   \<and> map (rec_id \<circ> snd (run [Insert 0, Insert 1, Insert 2] (AddressBook_init, h))) [0, 1, 2]
         = [Some 1, Some 2, Some 3]
   \<and> rec_id (snd (run [Insert 0, Insert 1, Insert 2, Delete (Some 2), Insert 3]
                    (AddressBook_init, h)) 3) = Some 2"
proof (intro conjI)
  show "if free_ids b \<noteq> {||} then
      rec_id (snd (add_record b a h) a) = Some (fMin (free_ids b)) \<and>
      free_ids (fst (add_record b a h)) = free_ids b |-| {|fMin (free_ids b)|} \<and>
      data (fst (add_record b a h)) = AList.update (fMin (free_ids b)) a (data b)
    else
      (\<exists>n. rec_id (snd (add_record b a h) a) = Some n \<and>
           next_id b \<le> n \<and> n \<notin> keys (data b) \<and>
           (\<forall>k. next_id b \<le> k \<and> k < n \<longrightarrow> k \<in> keys (data b)) \<and>
           next_id (fst (add_record b a h)) = n + 1 \<and>
           free_ids (fst (add_record b a h)) = {||} \<and>
           data (fst (add_record b a h)) = data b @ [(n, a)])"
  proof (cases "free_ids b = {||}")
    case False
    then show ?thesis by (simp add: add_record_def Let_def)
  next
    case e: True
    define n where "n = advance (data b) (free_ids b) (next_id b)"
    have unused: "n \<notin> keys (data b)"
      using advance_unused [of "data b" "free_ids b" "next_id b"] by (simp add: n_def)
    have least: "\<forall>k. next_id b \<le> k \<and> k < n \<longrightarrow> k \<in> keys (data b)"
      using advance_least [of "next_id b" _ "data b" "free_ids b"] e by (auto simp: n_def)
    have ge: "next_id b \<le> n"
      by (simp add: n_def advance_ge)
    have adv: "advance (data b) {||} (next_id b) = n"
      using e by (simp add: n_def)
    have "rec_id (snd (add_record b a h) a) = Some n \<and>
      next_id b \<le> n \<and> n \<notin> keys (data b) \<and>
      (\<forall>k. next_id b \<le> k \<and> k < n \<longrightarrow> k \<in> keys (data b)) \<and>
      next_id (fst (add_record b a h)) = n + 1 \<and>
      free_ids (fst (add_record b a h)) = {||} \<and>
      data (fst (add_record b a h)) = data b @ [(n, a)]"
      using e unused least ge adv
      by (simp add: add_record_def Let_def update_new_key)
    then have "\<exists>n. rec_id (snd (add_record b a h) a) = Some n \<and>
      next_id b \<le> n \<and> n \<notin> keys (data b) \<and>
      (\<forall>k. next_id b \<le> k \<and> k < n \<longrightarrow> k \<in> keys (data b)) \<and>
      next_id (fst (add_record b a h)) = n + 1 \<and>
      free_ids (fst (add_record b a h)) = {||} \<and>
      data (fst (add_record b a h)) = data b @ [(n, a)]" ..
    with e show ?thesis by simp
  qed
next
  show "map (rec_id \<circ> snd (run [Insert 0, Insert 1, Insert 2] (AddressBook_init, h))) [0, 1, 2]
         = [Some 1, Some 2, Some 3]"
    by (simp add: add_record_def AddressBook_init_def advance.simps keys_def)
next
  show "rec_id (snd (run [Insert 0, Insert 1, Insert 2, Delete (Some 2), Insert 3]
                    (AddressBook_init, h)) 3) = Some 2"
    by (simp add: add_record_def delete_record_by_id_def AddressBook_init_def advance.simps
        keys_def)
qed

theorem add_record_allocation_witness:
  "free_ids loaded_13 = {||}
   \<and> next_id loaded_13 = 1
   \<and> rec_id (snd (add_record loaded_13 1 heap_13) 1) = Some 2
   \<and> data (fst (add_record loaded_13 1 heap_13)) = [(1, 0), (3, 2), (2, 1)]
   \<and> next_id (fst (add_record loaded_13 1 heap_13)) = 3
   \<and> free_ids book_13 = {|2|}
   \<and> rec_id (snd (add_record book_13 1 heap_13) 1) = Some 2
   \<and> free_ids (fst (add_record book_13 1 heap_13)) = {||}"
proof -
  have e: "free_ids loaded_13 = {||}" and nx: "next_id loaded_13 = 1"
    and ks: "keys (data loaded_13) = {1, 3}" and d: "data loaded_13 = [(1, 0), (3, 2)]"
    by (simp_all add: loaded_13_def keys_def)
  have f: "free_ids book_13 = {|2|}"
    by (simp add: book_13_def)
  from add_record_allocation [of loaded_13 1 heap_13] e
  obtain n where n: "rec_id (snd (add_record loaded_13 1 heap_13) 1) = Some n"
    "next_id loaded_13 \<le> n" "n \<notin> keys (data loaded_13)"
    "\<forall>k. next_id loaded_13 \<le> k \<and> k < n \<longrightarrow> k \<in> keys (data loaded_13)"
    "next_id (fst (add_record loaded_13 1 heap_13)) = n + 1"
    "data (fst (add_record loaded_13 1 heap_13)) = data loaded_13 @ [(n, 1)]"
    by auto
  from spec [OF n(4), of 2] have "\<not> 2 < n"
    by (simp add: nx ks)
  with n(2,3) have "n = 2"
    by (simp add: nx ks)
  with n(1,5,6) have 1: "rec_id (snd (add_record loaded_13 1 heap_13) 1) = Some 2
     \<and> data (fst (add_record loaded_13 1 heap_13)) = [(1, 0), (3, 2), (2, 1)]
     \<and> next_id (fst (add_record loaded_13 1 heap_13)) = 3"
    by (simp add: d)
  from add_record_allocation [of book_13 1 heap_13] f
  have 2: "rec_id (snd (add_record book_13 1 heap_13) 1) = Some 2
      \<and> free_ids (fst (add_record book_13 1 heap_13)) = {||}"
    by simp
  from e nx f 1 2 show ?thesis by simp
qed

section \<open>C10: insertion into a loaded book\<close>

text \<open>
  C10: \<^verbatim>\<open>load_address_book\<close> returns the loaded entries with \<open>free_ids\<close> empty and
  \<open>next_id = 1\<close>, so \<open>next_id\<close> may be at or below an existing key. In every book
  whose \<open>free_ids\<close> is empty, wherever \<open>next_id\<close> stands, \<^verbatim>\<open>add_record\<close> assigns an
  id that is not a key and appends the new entry: no existing entry is
  overwritten, because the loop first moves \<open>next_id\<close> past the occupied keys.
\<close>

theorem add_record_keeps_entries:
  "free_ids b = {||} \<Longrightarrow>
   (\<exists>i. rec_id (snd (add_record b a h) a) = Some i \<and> i \<notin> keys (data b)
        \<and> data (fst (add_record b a h)) = data b @ [(i, a)])
   \<and> free_ids (fst (load_address_book (Some (Pickle d objs)) h \<rho>)) = {||}
   \<and> next_id (fst (load_address_book (Some (Pickle d objs)) h \<rho>)) = 1
   \<and> data (fst (load_address_book (Some (Pickle d objs)) h \<rho>)) = map (\<lambda>(k, a). (k, \<rho> a)) d
   \<and> keys (data (fst (load_address_book (Some (Pickle d objs)) h \<rho>))) = keys d"
proof -
  assume e: "free_ids b = {||}"
  have u: "advance (data b) {||} (next_id b) \<notin> keys (data b)"
    using advance_unused [of "data b" "{||}" "next_id b"] by simp
  have "rec_id (snd (add_record b a h) a) = Some (advance (data b) {||} (next_id b))
     \<and> advance (data b) {||} (next_id b) \<notin> keys (data b)
     \<and> data (fst (add_record b a h)) = data b @ [(advance (data b) {||} (next_id b), a)]"
    using e u by (simp add: add_record_def Let_def update_new_key)
  then have "\<exists>i. rec_id (snd (add_record b a h) a) = Some i \<and> i \<notin> keys (data b)
        \<and> data (fst (add_record b a h)) = data b @ [(i, a)]" ..
  then show ?thesis
    by (simp add: load_address_book_def pickle_load_def AddressBook_init_def keys_renamed)
qed

theorem add_record_keeps_entries_witness:
  "free_ids loaded_13 = {||} \<and> 3 \<in> keys (data loaded_13) \<and> next_id loaded_13 \<le> 3
   \<and> (\<exists>i. rec_id (snd (add_record loaded_13 1 heap_13) 1) = Some i \<and> i \<notin> keys (data loaded_13)
        \<and> data (fst (add_record loaded_13 1 heap_13)) = data loaded_13 @ [(i, 1)])"
proof -
  have e: "free_ids loaded_13 = {||}"
    by (simp add: loaded_13_def)
  have k: "3 \<in> keys (data loaded_13) \<and> next_id loaded_13 \<le> 3"
    by (simp add: loaded_13_def keys_def)
  from add_record_keeps_entries [OF e, of 1 heap_13 "[]" "[]" id] e k show ?thesis
    by simp
qed

section \<open>Invariants of a run\<close>

lemma alloc_inv_init: "alloc_inv AddressBook_init"
  by (simp add: alloc_inv_def AddressBook_init_def keys_def)

lemma alloc_inv_advance:
  assumes "alloc_inv b"
  shows "advance (data b) (free_ids b) (next_id b) = next_id b"
proof -
  have "next_id b \<notin> keys (data b) \<union> fset (free_ids b)"
    using assms by (simp add: alloc_inv_def)
  then show ?thesis
    by (subst advance.simps) simp
qed

lemma alloc_inv_add:
  assumes inv: "alloc_inv b"
  shows "alloc_inv (fst (add_record b a h))"
proof (cases "free_ids b = {||}")
  case True
  with inv have ks: "keys (data b) = {1..<next_id b}" and one: "1 \<le> next_id b"
    by (simp_all add: alloc_inv_def)
  have iv: "{1..<next_id b + 1} = insert (next_id b) {1..<next_id b}"
    using one by auto
  have adv: "advance (data b) {||} (next_id b) = next_id b"
    using alloc_inv_advance [OF inv] True by simp
  from True ks one iv show ?thesis
    by (simp add: add_record_def Let_def adv alloc_inv_def keys_update)
next
  case False
  define i where "i = fMin (free_ids b)"
  have mem: "i |\<in>| free_ids b"
    using False by (simp add: i_def)
  with inv have nk: "i \<notin> keys (data b)"
    by (auto simp: alloc_inv_def)
  from inv mem nk have
    "insert i (keys (data b)) \<inter> (fset (free_ids b) - {i}) = {}"
    "insert i (keys (data b)) \<union> (fset (free_ids b) - {i}) = {1..<next_id b}"
    by (auto simp: alloc_inv_def)
  with False inv show ?thesis
    by (simp add: add_record_def Let_def alloc_inv_advance [OF inv] alloc_inv_def keys_update
        i_def [symmetric])
qed

lemma alloc_inv_delete:
  assumes inv: "alloc_inv b"
  shows "alloc_inv (delete_record_by_id b inp)"
proof (cases inp)
  case None
  with inv show ?thesis by (simp add: delete_record_by_id_def)
next
  case (Some k)
  show ?thesis
  proof (cases "k \<in> keys (data b)")
    case False
    with inv Some show ?thesis by (simp add: delete_record_by_id_def)
  next
    case True
    with inv have
      "(keys (data b) - {k}) \<inter> insert k (fset (free_ids b)) = {}"
      "(keys (data b) - {k}) \<union> insert k (fset (free_ids b)) = {1..<next_id b}"
      by (auto simp: alloc_inv_def)
    with inv Some True show ?thesis
      by (simp add: delete_record_by_id_def alloc_inv_def keys_delete)
  qed
qed

lemma alloc_inv_step: "alloc_inv (fst s) \<Longrightarrow> alloc_inv (fst (step x s))"
  by (cases x; cases s) (simp_all add: alloc_inv_add alloc_inv_delete)

lemma alloc_inv_run: "alloc_inv (fst s) \<Longrightarrow> alloc_inv (fst (run xs s))"
  by (induction xs arbitrary: s) (simp_all add: alloc_inv_step)

lemma ids_inv_add:
  assumes inv: "alloc_inv b" and ids: "ids_inv b h"
    and fresh: "a \<notin> set (values_of (data b))"
  shows "ids_inv (fst (add_record b a h)) (snd (add_record b a h))"
proof -
  define i where "i = (if free_ids b \<noteq> {||} then fMin (free_ids b) else next_id b)"
  have nk: "i \<notin> keys (data b)"
  proof (cases "free_ids b = {||}")
    case True
    with inv show ?thesis by (auto simp: i_def alloc_inv_def)
  next
    case False
    then have m: "fMin (free_ids b) \<in> fset (free_ids b)" by simp
    from inv have "keys (data b) \<inter> fset (free_ids b) = {}"
      by (simp add: alloc_inv_def)
    with m have "fMin (free_ids b) \<notin> keys (data b)" by blast
    with False show ?thesis by (simp add: i_def)
  qed
  have d: "data (fst (add_record b a h)) = data b @ [(i, a)]"
    unfolding add_record_def Let_def alloc_inv_advance [OF inv]
    using nk by (cases "free_ids b = {||}") (simp_all add: i_def update_new_key)
  have hp: "snd (add_record b a h) = h(a := (h a)\<lparr>rec_id := Some i\<rparr>)"
    unfolding add_record_def Let_def alloc_inv_advance [OF inv]
    by (simp add: i_def)
  have "\<And>k a'. (k, a') \<in> set (data b) \<Longrightarrow> a' \<noteq> a"
    using fresh by (force simp: values_of_def)
  with ids show ?thesis
    by (auto simp: ids_inv_def d hp)
qed

lemma ids_inv_delete: "ids_inv b h \<Longrightarrow> ids_inv (delete_record_by_id b inp) h"
  by (auto simp: ids_inv_def delete_record_by_id_def AList.delete_eq split: option.splits)

lemma ids_inv_run:
  "fresh_inserts xs s \<Longrightarrow> alloc_inv (fst s) \<Longrightarrow> ids_inv (fst s) (snd s) \<Longrightarrow>
   ids_inv (fst (run xs s)) (snd (run xs s))"
proof (induction xs s rule: fresh_inserts.induct)
  case (1 s)
  then show ?case by simp
next
  case (2 a xs b h)
  then show ?case by (simp add: alloc_inv_add ids_inv_add)
next
  case (3 inp xs b h)
  then show ?case by (simp add: alloc_inv_delete ids_inv_delete)
qed

section \<open>C7: keys, record ids and free ids\<close>

text \<open>
  C7, as the spec states it, for every sequence of insertions and deletions from the
  fresh book: each key is the \<^verbatim>\<open>id\<close> of the record stored under it. A record is an
  object, and \<^verbatim>\<open>add_record\<close> accepts one that the book already holds: it then
  assigns the object a second id and stores it under both keys, so the entry
  under the first key holds a record whose \<^verbatim>\<open>id\<close> is the second.
\<close>

theorem same_record_twice_counterexample:
  "data (fst (run [Insert 0, Insert 0] (AddressBook_init, heap0))) = [(1, 0), (2, 0)]
   \<and> rec_id (snd (run [Insert 0, Insert 0] (AddressBook_init, heap0)) 0) = Some 2"
  by (simp add: add_record_def AddressBook_init_def advance.simps keys_def)

text \<open>
  C7, amended: in every state reached from the fresh book by insertions and deletions
  in which each inserted record is an object that the book does not hold at that
  moment, every key of \<open>data\<close> equals the \<^verbatim>\<open>id\<close> of the record stored under it; and in
  every state reached by any insertions and deletions, \<open>free_ids\<close> is disjoint from
  the keys.
\<close>

theorem store_invariants:
  "(fresh_inserts xs (AddressBook_init, h0) \<longrightarrow>
      (\<forall>(k, a) \<in> set (data (fst (run xs (AddressBook_init, h0)))).
          rec_id (snd (run xs (AddressBook_init, h0)) a) = Some k))
   \<and> keys (data (fst (run xs (AddressBook_init, h0))))
       \<inter> fset (free_ids (fst (run xs (AddressBook_init, h0)))) = {}"
proof
  have a: "alloc_inv (fst (AddressBook_init, h0))"
    by (simp add: alloc_inv_init)
  have i: "ids_inv (fst (AddressBook_init, h0)) (snd (AddressBook_init, h0))"
    by (simp add: ids_inv_def AddressBook_init_def)
  show "fresh_inserts xs (AddressBook_init, h0) \<longrightarrow>
      (\<forall>(k, a) \<in> set (data (fst (run xs (AddressBook_init, h0)))).
          rec_id (snd (run xs (AddressBook_init, h0)) a) = Some k)"
    using ids_inv_run [OF _ a i] by (simp add: ids_inv_def)
  show "keys (data (fst (run xs (AddressBook_init, h0))))
       \<inter> fset (free_ids (fst (run xs (AddressBook_init, h0)))) = {}"
    using alloc_inv_run [OF a, of xs] by (simp add: alloc_inv_def)
qed

theorem store_invariants_witness:
  "fresh_inserts [Insert 0, Insert 1, Insert 2, Delete (Some 2), Insert 1] (AddressBook_init, heap0)
   \<and> data (fst (run [Insert 0, Insert 1, Insert 2, Delete (Some 2), Insert 1]
                  (AddressBook_init, heap0))) = [(1, 0), (3, 2), (2, 1)]
   \<and> rec_id (snd (run [Insert 0, Insert 1, Insert 2, Delete (Some 2), Insert 1]
                  (AddressBook_init, heap0)) 2) = Some 3"
proof -
  have f: "fresh_inserts [Insert 0, Insert 1, Insert 2, Delete (Some 2), Insert 1]
             (AddressBook_init, heap0)"
    by (simp add: add_record_def delete_record_by_id_def AddressBook_init_def advance.simps
        keys_def values_of_def)
  have d: "data (fst (run [Insert 0, Insert 1, Insert 2, Delete (Some 2), Insert 1]
                  (AddressBook_init, heap0))) = [(1, 0), (3, 2), (2, 1)]"
    by (simp add: add_record_def delete_record_by_id_def AddressBook_init_def advance.simps
        keys_def)
  from store_invariants [of "[Insert 0, Insert 1, Insert 2, Delete (Some 2), Insert 1]" heap0] f
  have "\<forall>(k, a) \<in> set (data (fst (run [Insert 0, Insert 1, Insert 2, Delete (Some 2), Insert 1]
                  (AddressBook_init, heap0)))).
          rec_id (snd (run [Insert 0, Insert 1, Insert 2, Delete (Some 2), Insert 1]
                  (AddressBook_init, heap0)) a) = Some k"
    by blast
  then have "rec_id (snd (run [Insert 0, Insert 1, Insert 2, Delete (Some 2), Insert 1]
                  (AddressBook_init, heap0)) 2) = Some 3"
    unfolding d by simp
  with f d show ?thesis by simp
qed

section \<open>C2: saving and loading\<close>

lemma add_record_id:
  "rec_id (snd (add_record b a h) a)
     = Some (if free_ids b \<noteq> {||} then fMin (free_ids b)
             else advance (data b) (free_ids b) (next_id b))"
  by (simp add: add_record_def Let_def)

lemma fold_rebuild:
  assumes "inj_on \<rho> (set as)" and "a \<in> set as"
  shows "fold (\<lambda>(a, r) hh. hh(\<rho> a := rebuild \<rho> r)) (map (\<lambda>a. (a, h a)) as) h' (\<rho> a)
           = rebuild \<rho> (h a)"
  using assms
proof (induction as rule: rev_induct)
  case Nil
  then show ?case by simp
next
  case (snoc x xs)
  show ?case
  proof (cases "a = x")
    case True
    then show ?thesis by simp
  next
    case False
    with snoc.prems have mem: "a \<in> set xs" by simp
    from snoc.prems(1) have inj: "inj_on \<rho> (set xs)"
      by (auto simp: inj_on_def)
    from snoc.prems(1) mem False have "\<rho> x \<noteq> \<rho> a"
      by (auto simp: inj_on_def)
    with snoc.IH [OF inj mem] show ?thesis by simp
  qed
qed

lemma field_values_rebuild: "field_values (rebuild \<rho> r) = field_values r"
  by (simp add: field_values_def rebuild_def rename_field_def rename_note_def rename_tag_def
      note_values_def comp_def option.map_comp)

lemma save_then_load_book:
  "fst (save_then_load b h old h' \<rho>)
     = \<lparr>data = map (\<lambda>(k, a). (k, \<rho> a)) (data b), next_id = 1, free_ids = {||},
        current = None\<rparr>"
  by (simp add: save_then_load_def load_address_book_def save_address_book_def pickle_dump_def
      pickle_load_def AddressBook_init_def)

lemma save_then_load_heap:
  assumes "inj_on \<rho> (set (values_of (data b)))" and "a \<in> set (values_of (data b))"
  shows "snd (save_then_load b h old h' \<rho>) (\<rho> a) = rebuild \<rho> (h a)"
proof -
  have s: "set (pickle_memo [] (values_of (data b))) = set (values_of (data b))"
    by (simp add: pickle_memo_set)
  from assms fold_rebuild [of \<rho> "pickle_memo [] (values_of (data b))" a h h'] show ?thesis
    by (simp add: save_then_load_def load_address_book_def save_address_book_def
        pickle_dump_def pickle_load_def s)
qed

lemma loaded_insert_id:
  assumes "free_ids L = {||}" and "next_id L = 1"
  shows "(rec_id (snd (add_record L x hh) x) = Some k)
           \<longleftrightarrow> 1 \<le> k \<and> k \<notin> keys (data L) \<and> (\<forall>j. 1 \<le> j \<and> j < k \<longrightarrow> j \<in> keys (data L))"
proof -
  define n where "n = advance (data L) {||} 1"
  have i: "rec_id (snd (add_record L x hh) x) = Some n"
    using assms by (simp add: add_record_id n_def)
  have ge: "1 \<le> n"
    by (simp add: n_def advance_ge)
  have un: "n \<notin> keys (data L)"
    using advance_unused [of "data L" "{||}" 1] by (simp add: n_def)
  have le: "\<forall>j. 1 \<le> j \<and> j < n \<longrightarrow> j \<in> keys (data L)"
    using advance_least [of 1 _ "data L" "{||}"] by (auto simp: n_def)
  show ?thesis
  proof
    assume "rec_id (snd (add_record L x hh) x) = Some k"
    with i have "k = n" by simp
    with ge un le show "1 \<le> k \<and> k \<notin> keys (data L) \<and> (\<forall>j. 1 \<le> j \<and> j < k \<longrightarrow> j \<in> keys (data L))"
      by simp
  next
    assume k: "1 \<le> k \<and> k \<notin> keys (data L) \<and> (\<forall>j. 1 \<le> j \<and> j < k \<longrightarrow> j \<in> keys (data L))"
    have "advance (data L) {||} 1 = k"
      by (rule advance_eqI) (use k in auto)
    with i show "rec_id (snd (add_record L x hh) x) = Some k"
      by (simp add: n_def)
  qed
qed

text \<open>
  C2, as the spec states it: for every store, saving and loading reproduce the
  store with the same \<open>free_ids\<close> and \<open>next_id\<close>, and after a deletion, saving and
  loading, the next insertion still reuses the freed id. Three things stand
  against it. \<^verbatim>\<open>save_address_book\<close> writes \<^verbatim>\<open>book.data\<close> only: for \<open>book_13\<close>, the book
  after three insertions and the deletion of id 2, \<open>free_ids\<close> is \<open>{2}\<close> and
  \<open>next_id\<close> is 4 before, and empty and 1 after. The freed id is not always the one
  reused: in \<open>loaded_13\<close> (ids 1 and 3) delete id 3; the next insertion into that
  store assigns the freed 3, but after saving and loading it assigns 2. And when
  writing fails, \<^verbatim>\<open>save_address_book\<close> prints the error and returns, and loading
  the incomplete file gives an empty book.
\<close>

theorem save_load_allocator_counterexample:
  "free_ids book_13 = {|2|} \<and> next_id book_13 = 4
   \<and> free_ids (fst (save_then_load book_13 heap_13 None heap0 id)) = {||}
   \<and> next_id (fst (save_then_load book_13 heap_13 None heap0 id)) = 1
   \<and> rec_id (snd (add_record (delete_record_by_id loaded_13 (Some 3)) 1 heap_13) 1) = Some 3
   \<and> rec_id (snd (add_record
         (fst (save_then_load (delete_record_by_id loaded_13 (Some 3)) heap_13 None heap0 id)) 1
         (snd (save_then_load (delete_record_by_id loaded_13 (Some 3)) heap_13 None heap0 id)))
        1) = Some 2
   \<and> data (fst (load_address_book (save_address_book book_13 heap_13 None DumpFailed) heap0 id))
        = []"
  by (simp add: book_13_def loaded_13_def save_then_load_def load_address_book_def
      save_address_book_def pickle_dump_def pickle_load_def AddressBook_init_def
      delete_record_by_id_def add_record_def advance.simps keys_def values_of_def)

text \<open>
  C2, amended: for every store, when the file is written without an I/O error,
  save followed by load reproduces the entries: the same ids in the same order,
  each bound to a rebuilt record with the same field values. The allocator state
  is not reproduced: \<open>free_ids\<close> is empty and \<open>next_id\<close> is 1 after loading. The
  next insertion into the loaded store receives the least positive integer that
  is not an id of the store; so after deleting an id \<open>k\<close>, saving and loading, the
  next insertion reuses \<open>k\<close> exactly when \<open>k\<close> is positive and every positive integer
  below \<open>k\<close> is still an id.
\<close>

theorem save_load_round_trip:
  assumes inj: "inj_on \<rho> (set (values_of (data b)))"
  shows "data (fst (save_then_load b h old h' \<rho>)) = map (\<lambda>(k, a). (k, \<rho> a)) (data b)
     \<and> (\<forall>(k, a) \<in> set (data b).
           field_values (snd (save_then_load b h old h' \<rho>) (\<rho> a)) = field_values (h a))
     \<and> free_ids (fst (save_then_load b h old h' \<rho>)) = {||}
     \<and> next_id (fst (save_then_load b h old h' \<rho>)) = 1
     \<and> (\<exists>n. rec_id (snd (add_record (fst (save_then_load b h old h' \<rho>)) x
                         (snd (save_then_load b h old h' \<rho>))) x) = Some n)
     \<and> (rec_id (snd (add_record (fst (save_then_load b h old h' \<rho>)) x
                         (snd (save_then_load b h old h' \<rho>))) x) = Some k
          \<longleftrightarrow> 1 \<le> k \<and> k \<notin> keys (data b) \<and> (\<forall>j. 1 \<le> j \<and> j < k \<longrightarrow> j \<in> keys (data b)))"
proof (intro conjI)
  note bk = save_then_load_book [of b h old h' \<rho>]
  show "data (fst (save_then_load b h old h' \<rho>)) = map (\<lambda>(k, a). (k, \<rho> a)) (data b)"
    by (simp add: bk)
  show "\<forall>(k, a) \<in> set (data b).
           field_values (snd (save_then_load b h old h' \<rho>) (\<rho> a)) = field_values (h a)"
  proof (clarify)
    fix k a
    assume "(k, a) \<in> set (data b)"
    then have "a \<in> set (values_of (data b))"
      by (force simp: values_of_def)
    from save_then_load_heap [OF inj this]
    show "field_values (snd (save_then_load b h old h' \<rho>) (\<rho> a)) = field_values (h a)"
      by (simp add: field_values_rebuild)
  qed
  show f: "free_ids (fst (save_then_load b h old h' \<rho>)) = {||}"
    by (simp add: bk)
  show n: "next_id (fst (save_then_load b h old h' \<rho>)) = 1"
    by (simp add: bk)
  have ks: "keys (data (fst (save_then_load b h old h' \<rho>))) = keys (data b)"
    by (simp add: bk keys_renamed)
  show "\<exists>n. rec_id (snd (add_record (fst (save_then_load b h old h' \<rho>)) x
                         (snd (save_then_load b h old h' \<rho>))) x) = Some n"
    by (simp add: add_record_id)
  show "rec_id (snd (add_record (fst (save_then_load b h old h' \<rho>)) x
                         (snd (save_then_load b h old h' \<rho>))) x) = Some k
          \<longleftrightarrow> 1 \<le> k \<and> k \<notin> keys (data b) \<and> (\<forall>j. 1 \<le> j \<and> j < k \<longrightarrow> j \<in> keys (data b))"
    using loaded_insert_id [OF f n, of x "snd (save_then_load b h old h' \<rho>)" k]
    by (simp only: ks)
qed

theorem save_load_round_trip_witness:
  "inj_on ((+) 10) (set (values_of (data book_13)))
   \<and> data (fst (save_then_load book_13 heap_13 None heap0 ((+) 10))) = [(1, 10), (3, 12)]
   \<and> field_values (snd (save_then_load book_13 heap_13 None heap0 ((+) 10)) 12)
        = field_values (heap_13 2)
   \<and> rec_id (snd (add_record (fst (save_then_load book_13 heap_13 None heap0 ((+) 10))) 1
                   (snd (save_then_load book_13 heap_13 None heap0 ((+) 10)))) 1) = Some 2"
proof -
  have i: "inj_on ((+) 10) (set (values_of (data book_13)))"
    by (simp add: inj_on_def)
  note t = save_load_round_trip [OF i, of heap_13 None heap0 1 2]
  have m: "(3, 2) \<in> set (data book_13)" and d: "data book_13 = [(1, 0), (3, 2)]"
    and ks: "keys (data book_13) = {1, 3}"
    by (simp_all add: book_13_def keys_def)
  from t have 1: "data (fst (save_then_load book_13 heap_13 None heap0 ((+) 10)))
      = [(1, 10), (3, 12)]"
    by (simp add: d)
  from t m have 2: "field_values (snd (save_then_load book_13 heap_13 None heap0 ((+) 10)) 12)
        = field_values (heap_13 2)"
    by fastforce
  have "1 \<le> (2::int) \<and> 2 \<notin> keys (data book_13)
      \<and> (\<forall>j. 1 \<le> j \<and> j < 2 \<longrightarrow> j \<in> keys (data book_13))"
    by (auto simp: ks)
  with t have 3: "rec_id (snd (add_record (fst (save_then_load book_13 heap_13 None heap0 ((+) 10))) 1
                   (snd (save_then_load book_13 heap_13 None heap0 ((+) 10)))) 1) = Some 2"
    by blast
  from i 1 2 3 show ?thesis by simp
qed

section \<open>C8: batches of five\<close>

lemma for_batches_from:
  "current b = Some c \<Longrightarrow>
   \<exists>bs. for_batches b = Inr bs \<and> concat bs = drop c (values_of (data b))
      \<and> (\<forall>x \<in> set bs. 1 \<le> length x \<and> length x \<le> 5)
      \<and> (\<forall>x \<in> set (butlast bs). length x = 5)"
proof (induction b arbitrary: c rule: for_batches.induct)
  case (1 b)
  show ?case
  proof (cases "c < length (data b)")
    case False
    with "1.prems" have "for_batches b = Inr []"
      by (subst for_batches.simps) (simp add: AddressBook_next_def)
    with False show ?thesis by (simp add: values_of_def)
  next
    case True
    define b' where "b' = b\<lparr>current := Some (c + 5)\<rparr>"
    define r where "r = take 5 (drop c (values_of (data b)))"
    have nx: "AddressBook_next b = Inr (r, b')"
      using True "1.prems" by (simp add: AddressBook_next_def b'_def r_def)
    have "current b' = Some (c + 5)" by (simp add: b'_def)
    from "1.IH" [OF nx refl this]
    obtain bs where bs: "for_batches b' = Inr bs"
      "concat bs = drop (c + 5) (values_of (data b'))"
      "\<forall>x \<in> set bs. 1 \<le> length x \<and> length x \<le> 5"
      "\<forall>x \<in> set (butlast bs). length x = 5"
      by blast
    have fb: "for_batches b = Inr (r # bs)"
      by (subst for_batches.simps) (simp add: nx bs(1))
    have d: "data b' = data b" by (simp add: b'_def)
    have cc: "concat (r # bs) = drop c (values_of (data b))"
      using bs(2) by (simp add: r_def d add.commute [of c 5] drop_drop [symmetric]
          del: drop_drop)
    have lr: "1 \<le> length r \<and> length r \<le> 5"
      using True by (simp add: r_def values_of_def)
    have full: "length r = 5" if "bs \<noteq> []"
    proof -
      from that obtain x xs where "bs = x # xs" by (cases bs) auto
      with bs(3) have "concat bs \<noteq> []" by auto
      with bs(2) have "c + 5 < length (values_of (data b))" by (simp add: d)
      then show ?thesis by (simp add: r_def)
    qed
    have "\<forall>x \<in> set (butlast (r # bs)). length x = 5"
      using bs(4) full by simp
    with fb cc lr bs(3) show ?thesis by simp
  qed
qed

lemma for_batches_12:
  assumes "length (data b) = 12"
  shows "\<exists>bs. for_batches (AddressBook_iter b) = Inr bs \<and> map length bs = [5, 5, 2]"
proof -
  have "for_batches (b\<lparr>current := Some 15\<rparr>) = Inr []"
    using assms by (subst for_batches.simps) (simp add: AddressBook_next_def)
  then have "for_batches (b\<lparr>current := Some 10\<rparr>)
      = Inr [take 5 (drop 10 (values_of (data b)))]"
    using assms by (subst for_batches.simps) (simp add: AddressBook_next_def)
  then have "for_batches (b\<lparr>current := Some 5\<rparr>)
      = Inr [take 5 (drop 5 (values_of (data b))), take 5 (drop 10 (values_of (data b)))]"
    using assms by (subst for_batches.simps) (simp add: AddressBook_next_def)
  then have "for_batches (b\<lparr>current := Some 0\<rparr>)
      = Inr [take 5 (drop 0 (values_of (data b))), take 5 (drop 5 (values_of (data b))),
             take 5 (drop 10 (values_of (data b)))]"
    using assms by (subst for_batches.simps) (simp add: AddressBook_next_def)
  with assms show ?thesis
    by (simp add: AddressBook_iter_def values_of_def)
qed

text \<open>
  C8: for every book, a fresh iteration (\<^verbatim>\<open>__iter__\<close>, then \<^verbatim>\<open>__next__\<close> until it raises
  \<^verbatim>\<open>StopIteration\<close>) ends and yields batches whose concatenation is the list of the
  records of \<open>data\<close> in insertion order, each entry once; every batch holds between
  1 and 5 records and every batch but the last holds exactly 5; a book with 12
  records yields batches of sizes 5, 5, 2.
\<close>

theorem batched_iteration:
  "\<exists>bs. for_batches (AddressBook_iter b) = Inr bs
      \<and> concat bs = values_of (data b)
      \<and> (\<forall>x \<in> set bs. 1 \<le> length x \<and> length x \<le> 5)
      \<and> (\<forall>x \<in> set (butlast bs). length x = 5)
      \<and> (length (data b) = 12 \<longrightarrow> map length bs = [5, 5, 2])"
proof -
  have "current (AddressBook_iter b) = Some 0"
    by (simp add: AddressBook_iter_def)
  from for_batches_from [OF this]
  obtain bs where bs: "for_batches (AddressBook_iter b) = Inr bs"
    "concat bs = values_of (data b)"
    "\<forall>x \<in> set bs. 1 \<le> length x \<and> length x \<le> 5"
    "\<forall>x \<in> set (butlast bs). length x = 5"
    by (auto simp: AddressBook_iter_def)
  have "length (data b) = 12 \<longrightarrow> map length bs = [5, 5, 2]"
    using for_batches_12 [of b] bs(1) by auto
  with bs show ?thesis by (intro exI [of _ bs]) simp
qed

theorem batched_iteration_witness:
  "length (data book_12) = 12
   \<and> for_batches (AddressBook_iter book_12)
        = Inr [[0, 1, 2, 3, 4], [5, 6, 7, 8, 9], [10, 11]]
   \<and> (\<exists>bs. for_batches (AddressBook_iter book_12) = Inr bs \<and> map length bs = [5, 5, 2]
          \<and> concat bs = [0, 1, 2, 3, 4, 5, 6, 7, 8, 9, 10, 11])"
proof -
  have l: "length (data book_12) = 12"
    by (simp add: book_12_def)
  have v: "values_of (data book_12) = [0, 1, 2, 3, 4, 5, 6, 7, 8, 9, 10, 11]"
    by (simp add: book_12_def values_of_def)
  have e: "for_batches (AddressBook_iter book_12)
        = Inr [[0, 1, 2, 3, 4], [5, 6, 7, 8, 9], [10, 11]]"
    by (simp add: for_batches.simps AddressBook_next_def AddressBook_iter_def book_12_def
        values_of_def)
  from batched_iteration [of book_12] l v
  have "\<exists>bs. for_batches (AddressBook_iter book_12) = Inr bs \<and> map length bs = [5, 5, 2]
          \<and> concat bs = [0, 1, 2, 3, 4, 5, 6, 7, 8, 9, 10, 11]"
    by auto
  with l e show ?thesis by blast
qed

section \<open>C6: removing and editing a phone\<close>

lemma list_remove_fails:
  "(\<exists>e. list_remove x ys = Inl e) \<longleftrightarrow> (\<forall>y \<in> set ys. ident y \<noteq> ident x)"
  by (induction ys) (auto split: sum.splits)

lemma list_remove_error: "list_remove x ys = Inl e \<Longrightarrow> e = ValueError"
  by (induction ys) (auto split: sum.splits if_splits)

text \<open>
  C6, as the spec states it: \<^verbatim>\<open>remove_phone\<close> and \<^verbatim>\<open>edit_phone\<close> fail exactly when no
  phone with the same validated string is in the list. The code compares objects:
  \<open>rec_1\<close> holds a phone with the string \<open>123456789\<close>, and removing or editing
  another \<^verbatim>\<open>Phone\<close> object with that same string raises \<^verbatim>\<open>ValueError\<close>.
\<close>

theorem equal_string_phone_counterexample:
  "val \<lparr>ident = 12, val = ''123456789''\<rparr> = val (hd (phones rec_1))
   \<and> remove_phone rec_1 \<lparr>ident = 12, val = ''123456789''\<rparr> = (Some ValueError, rec_1)
   \<and> edit_phone rec_1 \<lparr>ident = 12, val = ''123456789''\<rparr> \<lparr>ident = 13, val = ''987654321''\<rparr>
       = (Some ValueError, rec_1)"
  by (simp add: rec_1_def Record_init_def remove_phone_def edit_phone_def)

text \<open>
  C6, amended: for every record and phones \<open>old\<close> and \<open>new\<close>, \<^verbatim>\<open>remove_phone(old)\<close> and
  \<^verbatim>\<open>edit_phone(old, new)\<close> fail (with \<^verbatim>\<open>ValueError\<close>) exactly when the object \<open>old\<close>
  itself is not in the record's phone list (presence is object identity, not
  equality of the validated strings); and when either fails, the record, and so
  its phone list, is left unchanged.
\<close>

theorem phone_removal_by_identity:
  "(fst (remove_phone r old) = Some ValueError \<longleftrightarrow> (\<forall>p \<in> set (phones r). ident p \<noteq> ident old))
   \<and> (fst (edit_phone r old new) = Some ValueError
        \<longleftrightarrow> (\<forall>p \<in> set (phones r). ident p \<noteq> ident old))
   \<and> (fst (remove_phone r old) \<noteq> None \<longrightarrow> snd (remove_phone r old) = r)
   \<and> (fst (edit_phone r old new) \<noteq> None \<longrightarrow> snd (edit_phone r old new) = r)"
proof -
  show ?thesis
  proof (cases "list_remove old (phones r)")
    case (Inl e)
    then have "e = ValueError" by (rule list_remove_error)
    with Inl list_remove_fails [of old "phones r"] show ?thesis
      by (simp add: remove_phone_def edit_phone_def)
  next
    case (Inr ps)
    with list_remove_fails [of old "phones r"] show ?thesis
      by (simp add: remove_phone_def edit_phone_def)
  qed
qed

theorem phone_removal_by_identity_witness:
  "fst (remove_phone rec_1 \<lparr>ident = 12, val = ''123456789''\<rparr>) = Some ValueError
   \<and> snd (edit_phone rec_1 \<lparr>ident = 12, val = ''123456789''\<rparr> \<lparr>ident = 13, val = ''987654321''\<rparr>)
       = rec_1
   \<and> fst (remove_phone rec_1 \<lparr>ident = 11, val = ''123456789''\<rparr>) \<noteq> Some ValueError"
proof -
  have a: "\<forall>p \<in> set (phones rec_1). ident p \<noteq> ident \<lparr>ident = 12, val = ''123456789''\<rparr>"
    by (simp add: rec_1_def Record_init_def)
  have b: "\<not> (\<forall>p \<in> set (phones rec_1). ident p \<noteq> ident \<lparr>ident = 11, val = ''123456789''\<rparr>)"
    by (simp add: rec_1_def Record_init_def)
  note t = phone_removal_by_identity [of rec_1 "\<lparr>ident = 12, val = ''123456789''\<rparr>"
      "\<lparr>ident = 13, val = ''987654321''\<rparr>"]
  note u = phone_removal_by_identity [of rec_1 "\<lparr>ident = 11, val = ''123456789''\<rparr>"
      "\<lparr>ident = 13, val = ''987654321''\<rparr>"]
  from t a have 1: "fst (remove_phone rec_1 \<lparr>ident = 12, val = ''123456789''\<rparr>) = Some ValueError"
    and 2: "fst (edit_phone rec_1 \<lparr>ident = 12, val = ''123456789''\<rparr>
                 \<lparr>ident = 13, val = ''987654321''\<rparr>) = Some ValueError"
    by blast+
  from t 2 have 3: "snd (edit_phone rec_1 \<lparr>ident = 12, val = ''123456789''\<rparr>
                 \<lparr>ident = 13, val = ''987654321''\<rparr>) = rec_1"
    by simp
  from u b have 4: "fst (remove_phone rec_1 \<lparr>ident = 11, val = ''123456789''\<rparr>) \<noteq> Some ValueError"
    by blast
  from 1 3 4 show ?thesis by simp
qed

section \<open>C3: search by text\<close>

text \<open>
  C3 says that a record appears at most once in the result even if it matches on
  both a phone and an email. In \<^verbatim>\<open>find_record\<close> a name match is followed by
  \<^verbatim>\<open>continue\<close>, but a phone match only breaks the phone loop, and the email loop then
  runs and appends the record again. Bob's name does not contain \<open>123\<close>, his phone
  and his email do: the search returns him twice.
\<close>

theorem find_record_returns_bob_twice:
  "find_record bob_book bob_heap ''123'' = [0, 0]"
  by (simp add: find_record_def bob_book_def bob_heap_def bob_def values_of_def lower_def
      lower_char_def)

section \<open>Facts about date parsing\<close>

lemmas class_defs = in_class_def codepoints_def

lemmas calendar_defs =
  strptime_def format_regex_match_def re_m_def re_d_def in_class_def codepoints_def
  isdecimal_def to_decimal_def int_of_str_def strip_def datetime_new_def days_in_month_def
  is_leap_def

lemmas days_defs =
  days_to_birthday_def Record_init_def at_time_def replace_year_def to_microseconds_def
  timedelta_days_def ymd2ord_def days_before_year_def days_before_month_def

lemma re_Y_D: "(Y, r) \<in> set (re_Y udb s) \<Longrightarrow> s = Y @ r \<and> year_form udb Y"
  by (induction udb s rule: re_Y.induct) (auto simp: year_form_def split: if_splits)

lemma re_pair_D:
  "(x, r) \<in> set (re_pair c1 c2 s) \<Longrightarrow> \<exists>a b. x = [a, b] \<and> s = a # b # r \<and> c1 a \<and> c2 b"
  by (induction c1 c2 s rule: re_pair.induct) (auto split: if_splits)

lemma re_one_D: "(x, r) \<in> set (re_one c s) \<Longrightarrow> \<exists>a. x = [a] \<and> s = a # r \<and> c a"
  by (induction c s rule: re_one.induct) (auto split: if_splits)

lemma re_lit_D: "r \<in> set (re_lit c s) \<Longrightarrow> s = c # r"
  by (induction c s rule: re_lit.induct) (auto split: if_splits)

lemma re_m_D: "(m, r) \<in> set (re_m s) \<Longrightarrow> s = m @ r \<and> month_form m"
  unfolding re_m_def set_append Un_iff
  by (elim disjE; drule re_pair_D re_one_D) (auto simp: month_form_def month_strs_def class_defs)

lemma re_d_D: "(d, r) \<in> set (re_d udb s) \<Longrightarrow> s = d @ r \<and> day_form udb d"
proof -
  assume "(d, r) \<in> set (re_d udb s)"
  then consider
    (a1) "(d, r) \<in> set (re_pair (in_class ''3'') (in_class ''01'') s)"
  | (a2) "(d, r) \<in> set (re_pair (in_class ''12'') (isdecimal udb) s)"
  | (a3) "(d, r) \<in> set (re_pair (in_class ''0'') (in_class ''123456789'') s)"
  | (a4) "(d, r) \<in> set (re_one (in_class ''123456789'') s)"
  | (a5) "(d, r) \<in> set (re_pair (in_class '' '') (in_class ''123456789'') s)"
    unfolding re_d_def by auto
  then show ?thesis
  proof cases
    case a1
    from re_pair_D [OF this] obtain a b where
      "d = [a, b]" "s = a # b # r" "in_class ''3'' a" "in_class ''01'' b" by blast
    then have "s = d @ r" and "d \<in> codepoints ` set day_strs"
      by (auto simp: day_strs_def class_defs)
    then show ?thesis by (simp add: day_form_def)
  next
    case a2
    from re_pair_D [OF this] obtain a b where
      "d = [a, b]" "s = a # b # r" "in_class ''12'' a" "isdecimal udb b" by blast
    then have "s = d @ r" and "\<exists>a b. d = [a, b] \<and> in_class ''12'' a \<and> isdecimal udb b"
      by simp_all
    then show ?thesis by (simp add: day_form_def)
  next
    case a3
    from re_pair_D [OF this] obtain a b where
      "d = [a, b]" "s = a # b # r" "in_class ''0'' a" "in_class ''123456789'' b" by blast
    then have "s = d @ r" and "d \<in> codepoints ` set day_strs"
      by (auto simp: day_strs_def class_defs)
    then show ?thesis by (simp add: day_form_def)
  next
    case a4
    from re_one_D [OF this] obtain a where
      "d = [a]" "s = a # r" "in_class ''123456789'' a" by blast
    then have "s = d @ r" and "d \<in> codepoints ` set day_strs"
      by (auto simp: day_strs_def class_defs)
    then show ?thesis by (simp add: day_form_def)
  next
    case a5
    from re_pair_D [OF this] obtain a b where
      "d = [a, b]" "s = a # b # r" "in_class '' '' a" "in_class ''123456789'' b" by blast
    then have "s = d @ r" and "d \<in> codepoints ` set day_strs"
      by (auto simp: day_strs_def class_defs)
    then show ?thesis by (simp add: day_form_def)
  qed
qed

lemma format_regex_match_D:
  assumes "(Y, m, d, r) \<in> set (format_regex_match udb s)"
  shows "s = Y @ codepoints ''-'' @ m @ codepoints ''-'' @ d @ r \<and> year_form udb Y
         \<and> month_form m \<and> day_form udb d"
proof -
  from assms obtain r1 r2 r3 r4 where
    "(Y, r1) \<in> set (re_Y udb s)" "r2 \<in> set (re_lit 45 r1)" "(m, r3) \<in> set (re_m r2)"
    "r4 \<in> set (re_lit 45 r3)" "(d, r) \<in> set (re_d udb r4)"
    by (auto simp: format_regex_match_def)
  then show ?thesis
    using re_Y_D [of Y r1 udb s] re_lit_D [of r2 45 r1] re_m_D [of m r3 r2]
      re_lit_D [of r4 45 r3] re_d_D [of d r udb r4]
    by (simp add: codepoints_def)
qed

lemma re_Y_I:
  assumes "year_form udb Y"
  shows "re_Y udb (Y @ r) = [(Y, r)]"
proof -
  from assms obtain a b c d where Y: "Y = [a, b, c, d]"
    by (auto simp: year_form_def length_Suc_conv numeral_eq_Suc)
  from assms show ?thesis
    unfolding Y by (simp add: year_form_def)
qed

lemma re_m_I:
  assumes "month_form m"
  shows "concat (map (\<lambda>(m', r3). concat (map (F m') (re_lit 45 r3))) (re_m (m @ 45 # r)))
           = F m r"
  using assms unfolding month_form_def month_strs_def
  by (auto simp: re_m_def class_defs)

lemma re_d_I:
  assumes "day_form udb d"
  shows "\<exists>tl. re_d udb d = (d, []) # tl"
proof -
  from assms consider "d \<in> codepoints ` set day_strs"
    | a b where "d = [a, b]" "in_class ''12'' a" "isdecimal udb b"
    unfolding day_form_def by blast
  then show ?thesis
  proof cases
    case 1
    then show ?thesis
      unfolding day_strs_def by (auto simp: re_d_def class_defs)
  next
    case 2
    from 2(2) have "a = 49 \<or> a = 50" by (simp add: class_defs)
    with 2(3) show ?thesis
      unfolding 2(1) by (auto simp: re_d_def class_defs)
  qed
qed

lemma format_regex_match_I:
  assumes "year_form udb Y" and "month_form m" and "day_form udb d"
  shows "\<exists>tl. format_regex_match udb (Y @ codepoints ''-'' @ m @ codepoints ''-'' @ d)
           = (Y, m, d, []) # tl"
proof -
  from re_d_I [OF assms(3)] obtain tl where tl: "re_d udb d = (d, []) # tl" ..
  have "format_regex_match udb (Y @ codepoints ''-'' @ m @ codepoints ''-'' @ d)
          = map (\<lambda>(d, r5). (Y, m, d, r5)) (re_d udb d)"
    unfolding format_regex_match_def
    using re_m_I [OF assms(2), of "\<lambda>m r4. map (\<lambda>(d, r5). (Y, m, d, r5)) (re_d udb r4)" d]
    by (simp add: re_Y_I [OF assms(1)] case_prod_unfold codepoints_def)
  then show ?thesis by (simp add: tl)
qed

lemma month_range:
  "month_form m \<Longrightarrow> \<exists>mo. int_of_str udb m = Some mo \<and> 1 \<le> mo \<and> mo \<le> 12"
  unfolding month_form_def month_strs_def
  by (auto simp: int_of_str_def strip_def to_decimal_def codepoints_def)

lemma day_range:
  assumes "day_form udb d" and "int_of_str udb d = Some dd"
  shows "1 \<le> dd"
proof -
  from assms(1) consider "d \<in> codepoints ` set day_strs"
    | a b where "d = [a, b]" "in_class ''12'' a" "isdecimal udb b"
    unfolding day_form_def by blast
  then show ?thesis
  proof cases
    case 1
    with assms(2) show ?thesis
      unfolding day_strs_def
      by (auto simp: int_of_str_def strip_def to_decimal_def codepoints_def)
  next
    case 2
    from 2(3) obtain v where v: "to_decimal udb b = Some v"
      by (auto simp: isdecimal_def)
    have nb: "b \<noteq> 32"
      using 2(3) v by (auto simp: isdecimal_def to_decimal_def split: if_splits) 
    from 2(2) have "a = 49 \<or> a = 50"
      by (simp add: class_defs)
    with assms(2) v nb show ?thesis
      unfolding 2(1) by (auto simp: int_of_str_def strip_def to_decimal_def)
  qed
qed

lemma datetime_new_midnight:
  "(\<exists>dt. datetime_new y m d 0 0 0 0 = Inr dt)
     \<longleftrightarrow> 1 \<le> y \<and> y \<le> 9999 \<and> 1 \<le> m \<and> m \<le> 12 \<and> 1 \<le> d \<and> d \<le> days_in_month y m"
  by (auto simp: datetime_new_def)

lemma validate_birthday_iff:
  "validate_birthday udb s \<longleftrightarrow>
     (\<exists>Y m d y mo dd. s = Y @ codepoints ''-'' @ m @ codepoints ''-'' @ d
        \<and> year_form udb Y \<and> month_form m \<and> day_form udb d
        \<and> int_of_str udb Y = Some y \<and> int_of_str udb m = Some mo \<and> int_of_str udb d = Some dd
        \<and> 1 \<le> y \<and> y \<le> 9999 \<and> dd \<le> days_in_month y mo)"
proof
  assume v: "validate_birthday udb s"
  then obtain Y m d tl y mo dd dt where f: "format_regex_match udb s = (Y, m, d, []) # tl"
    and i: "int_of_str udb Y = Some y" "int_of_str udb m = Some mo" "int_of_str udb d = Some dd"
    and n: "datetime_new y mo dd 0 0 0 0 = Inr dt"
    by (auto simp: validate_birthday_def strptime_def
        split: list.splits sum.splits if_splits option.splits)
  from f have "(Y, m, d, []) \<in> set (format_regex_match udb s)" by simp
  from format_regex_match_D [OF this] n i datetime_new_midnight [of y mo dd]
  show "\<exists>Y m d y mo dd. s = Y @ codepoints ''-'' @ m @ codepoints ''-'' @ d
        \<and> year_form udb Y \<and> month_form m \<and> day_form udb d
        \<and> int_of_str udb Y = Some y \<and> int_of_str udb m = Some mo \<and> int_of_str udb d = Some dd
        \<and> 1 \<le> y \<and> y \<le> 9999 \<and> dd \<le> days_in_month y mo"
    by (intro exI [of _ Y] exI [of _ m] exI [of _ d] exI [of _ y] exI [of _ mo] exI [of _ dd])
      auto
next
  assume "\<exists>Y m d y mo dd. s = Y @ codepoints ''-'' @ m @ codepoints ''-'' @ d
        \<and> year_form udb Y \<and> month_form m \<and> day_form udb d
        \<and> int_of_str udb Y = Some y \<and> int_of_str udb m = Some mo \<and> int_of_str udb d = Some dd
        \<and> 1 \<le> y \<and> y \<le> 9999 \<and> dd \<le> days_in_month y mo"
  then obtain Y m d y mo dd where s: "s = Y @ codepoints ''-'' @ m @ codepoints ''-'' @ d"
    and Y: "year_form udb Y" and m: "month_form m" and d: "day_form udb d"
    and i: "int_of_str udb Y = Some y" "int_of_str udb m = Some mo" "int_of_str udb d = Some dd"
    and y: "1 \<le> y" "y \<le> 9999"
    and dim: "dd \<le> days_in_month y mo"
    by blast
  from format_regex_match_I [OF Y m d] obtain tl where
    f: "format_regex_match udb s = (Y, m, d, []) # tl"
    unfolding s ..
  from month_range [OF m, of udb] i(2) have mo: "1 \<le> mo \<and> mo \<le> 12" by simp
  from day_range [OF d i(3)] mo y dim
  have "\<exists>dt. datetime_new y mo dd 0 0 0 0 = Inr dt"
    by (simp only: datetime_new_midnight)
  then show "validate_birthday udb s"
    by (auto simp: validate_birthday_def strptime_def f i)
qed


lemma validate_examples:
  "\<not> validate_birthday udb (codepoints ''2021-02-29'')"
  "validate_birthday udb (codepoints ''2020-02-29'')"
  "\<not> validate_birthday udb (codepoints ''2020-13-01'')"
  "\<not> validate_birthday udb (codepoints ''2023-02-30'')"
  by (simp_all add: validate_birthday_def calendar_defs)

section \<open>C9: which strings make a birthday\<close>

text \<open>
  C9, as the spec states it: only strings with a four-digit year and a zero-padded
  two-digit month and day are accepted. \<^verbatim>\<open>strptime\<close> also takes a month and a day
  of one digit, and a day of one digit after a blank.
\<close>

theorem birthday_unpadded_counterexample:
  "validate_birthday unicode_14 (codepoints ''2020-2-9'')
   \<and> validate_birthday unicode_14 (codepoints ''2020-02- 9'')"
  by (simp add: validate_birthday_def calendar_defs)

text \<open>
  C9, amended: for every string \<open>s\<close> and every Unicode database, \<^verbatim>\<open>Birthday\<close>
  construction succeeds if and only if \<open>s\<close> is a year of four decimal digits, a
  hyphen, a month written 01 to 12 or 1 to 9, a hyphen, and a day written 01 to
  09, 1 to 9, a blank and 1 to 9, 30, 31, or a 1 or a 2 followed by a decimal
  digit, where the year is between 1 and 9999 and the day exists in that month of
  that year; a decimal digit of the year, and the second digit of a day from 10 to
  29, may be any decimal digit of Unicode, the other digits are 0 to 9.
  2021-02-29 fails, 2020-02-29 succeeds, month 13 is rejected.
\<close>

theorem validate_birthday_accepts:
  "(validate_birthday udb s \<longleftrightarrow>
     (\<exists>Y m d y mo dd. s = Y @ codepoints ''-'' @ m @ codepoints ''-'' @ d
        \<and> year_form udb Y \<and> month_form m \<and> day_form udb d
        \<and> int_of_str udb Y = Some y \<and> int_of_str udb m = Some mo \<and> int_of_str udb d = Some dd
        \<and> 1 \<le> y \<and> y \<le> 9999 \<and> dd \<le> days_in_month y mo))
   \<and> \<not> validate_birthday udb (codepoints ''2021-02-29'')
   \<and> validate_birthday udb (codepoints ''2020-02-29'')
   \<and> \<not> validate_birthday udb (codepoints ''2020-13-01'')"
  using validate_birthday_iff [of udb s] validate_examples [of udb] by blast

theorem validate_birthday_accepts_witness:
  "year_form unicode_14 [65298, 65296, 65298, 65300]
   \<and> validate_birthday unicode_14 ([65298, 65296, 65298, 65300] @ codepoints ''-02-29'')"
proof -
  have y: "year_form unicode_14 [65298, 65296, 65298, 65300]"
    by (simp add: year_form_def isdecimal_def to_decimal_def unicode_14_def decimal_blocks_def)
  have m: "month_form (codepoints ''02'')"
    by (simp add: month_form_def month_strs_def)
  have d: "day_form unicode_14 (codepoints ''29'')"
    by (simp add: day_form_def class_defs isdecimal_def to_decimal_def)
  have i: "int_of_str unicode_14 [65298, 65296, 65298, 65300] = Some 2024"
    "int_of_str unicode_14 (codepoints ''02'') = Some 2"
    "int_of_str unicode_14 (codepoints ''29'') = Some 29"
    by (simp_all add: int_of_str_def strip_def to_decimal_def codepoints_def unicode_14_def
        decimal_blocks_def)
  have dim: "(1::int) \<le> 2024 \<and> (2024::int) \<le> 9999 \<and> 29 \<le> days_in_month 2024 2"
    by (simp add: days_in_month_def is_leap_def)
  have "[65298, 65296, 65298, 65300] @ codepoints ''-02-29''
          = [65298, 65296, 65298, 65300] @ codepoints ''-'' @ codepoints ''02'' @ codepoints ''-''
              @ codepoints ''29''"
    by (simp add: codepoints_def)
  with y m d i dim
  have "\<exists>Y m d y mo dd. [65298, 65296, 65298, 65300] @ codepoints ''-02-29''
          = Y @ codepoints ''-'' @ m @ codepoints ''-'' @ d
        \<and> year_form unicode_14 Y \<and> month_form m \<and> day_form unicode_14 d
        \<and> int_of_str unicode_14 Y = Some y \<and> int_of_str unicode_14 m = Some mo
        \<and> int_of_str unicode_14 d = Some dd
        \<and> 1 \<le> y \<and> y \<le> 9999 \<and> dd \<le> days_in_month y mo"
    by blast
  with y show ?thesis
    using conjunct1 [OF validate_birthday_accepts
        [of unicode_14 "[65298, 65296, 65298, 65300] @ codepoints ''-02-29''"]]
    by blast
qed

section \<open>C4: the day count on the birthday itself\<close>

text \<open>
  C4 says that the count is taken between dates, so that it is 0 on the birthday.
  \<^verbatim>\<open>days_to_birthday\<close> compares \<^verbatim>\<open>datetime.now()\<close>, which carries the time of day,
  with midnight of the birthday: at 10:00 on the birthday, 15 June 2023, this
  year's occurrence counts as passed and the result is 365; at 10:00 on the day
  before, the result is 0; only at midnight sharp is the result on the birthday 0.
\<close>

theorem days_to_birthday_on_the_day:
  "days_to_birthday udb rec_june_15 (at_time 2023 6 15 10) = Inr (Days 365)
   \<and> days_to_birthday udb rec_june_15 (at_time 2023 6 14 10) = Inr (Days 0)
   \<and> days_to_birthday udb rec_june_15 (at_time 2023 6 15 0) = Inr (Days 0)"
  by (simp add: rec_june_15_def days_defs calendar_defs)

section \<open>C5: a birthday on 29 February\<close>

text \<open>
  C5 says that \<^verbatim>\<open>days_to_birthday\<close> returns normally for every valid birthday.
  \<^verbatim>\<open>Birthday("2020-02-29")\<close> is constructed, and on 1 March 2021
  \<^verbatim>\<open>bday.replace(year=2021)\<close> raises \<^verbatim>\<open>ValueError\<close>, since 2021 has no 29 February.
\<close>

theorem days_to_birthday_feb_29_raises:
  "Birthday_init udb 23 ''2020-02-29'' = Inr \<lparr>ident = 23, val = ''2020-02-29''\<rparr>
   \<and> days_to_birthday udb rec_feb_29 (at_time 2021 3 1 12) = Inl ValueError"
  by (simp add: Birthday_init_def validate_birthday_def rec_feb_29_def days_defs calendar_defs)

end
